(* ===== verification/Prelude.thy ===== *)
theory Prelude
  imports Main "HOL-Library.Signed_Division" "HOL-Library.Sublist" "HOL-Library.Code_Target_Numeral"
begin

text \<open>
  Shared vocabulary of the development: the names of the model's basic types, the
  collections of lemmas the component theories register their facts in, and generic
  lemmas on lists, options and the truncating division the components share.
\<close>

type_synonym timestamp = int \<comment> \<open>a chrono \<open>NaiveDateTime\<close>, as seconds of local time\<close>
type_synonym instant = int   \<comment> \<open>a monotonic \<open>std::time::Instant\<close>, in seconds\<close>
type_synonym path = "string list" \<comment> \<open>a filesystem path as its list of components\<close>

named_theorems rust_simps "evaluation rules of the Rust standard-library primitives"
named_theorems inv_simps "rules that unfold the invariants of the model"

subsection \<open>Lists\<close>

lemma filter_nonempty_append [simp]:
  "filter (\<lambda>w. w \<noteq> []) (xs @ [w]) = filter (\<lambda>w. w \<noteq> []) xs @ (if w = [] then [] else [w])"
  by simp

lemma list_all2_map_eq_iff:
  "list_all2 (\<lambda>x y. f x = f y) xs ys \<longleftrightarrow> map f xs = map f ys"
proof (induction xs arbitrary: ys)
  case Nil
  then show ?case by auto
next
  case (Cons x xs)
  then show ?case by (cases ys) auto
qed

subsection \<open>Options\<close>

lemma map_option_eq_Some_iff: "map_option f x = Some y \<longleftrightarrow> (\<exists>z. x = Some z \<and> f z = y)"
  by (cases x) auto

subsection \<open>Rust integer division\<close>

text \<open>
  Rust's \<open>/\<close> on signed integers truncates towards zero, which is \<open>sdiv\<close> of
  HOL-Library.Signed_Division; HOL's \<open>div\<close> rounds towards minus infinity.
  For a non-negative dividend and a positive divisor they agree.
\<close>

lemma sdiv_nonneg_eq_div: "0 \<le> (a::int) \<Longrightarrow> 0 < b \<Longrightarrow> a sdiv b = a div b"
  by (simp add: signed_divide_int_def sgn_if)

lemma sdiv_neg_gt: "(a::int) < 0 \<Longrightarrow> 0 < b \<Longrightarrow> a sdiv b \<le> 0"
  by (simp add: signed_divide_int_def sgn_if pos_imp_zdiv_nonneg_iff)

lemma hours_ge_iff:
  assumes "0 < (p::int)"
  shows "d sdiv 3600 \<ge> p \<longleftrightarrow> d \<ge> 3600 * p"
proof (cases "0 \<le> d")
  case True
  then have "d sdiv 3600 = d div 3600" by (simp add: sdiv_nonneg_eq_div)
  then show ?thesis using assms by auto
next
  case False
  then have "d sdiv 3600 \<le> 0" by (simp add: sdiv_neg_gt)
  then show ?thesis using assms False by auto
qed

end
