(* ===== verification/RustStr.thy ===== *)
theory RustStr
  imports Prelude
begin

text \<open>
  The Rust standard-library operations on strings and paths that \<open>src/src/main.rs\<close>
  calls: ASCII case mapping, whitespace trimming and splitting, splitting on a
  character, prefix stripping, \<open>Path::extension\<close>, and the \<open>FromStr\<close>/\<open>Display\<close>
  conversions of \<open>i32\<close>, \<open>usize\<close> and \<open>bool\<close>. A \<open>string\<close> of HOL is a list of bytes; the
  program's strings are taken to be ASCII, so Rust's Unicode whitespace is its ASCII part
  (space, tab, line feed, vertical tab, form feed, carriage return).
\<close>

section \<open>Characters\<close>

definition is_ascii_uppercase :: "char \<Rightarrow> bool" where
  "is_ascii_uppercase c \<longleftrightarrow> 65 \<le> (of_char c :: nat) \<and> (of_char c :: nat) \<le> 90"

text \<open>\<open>u8::to_ascii_lowercase\<close>: \<open>self | 0x20\<close> when the byte is an upper-case letter.\<close>

definition ascii_lower :: "char \<Rightarrow> char" where
  "ascii_lower c =
     (if is_ascii_uppercase c
      then Char (digit0 c) (digit1 c) (digit2 c) (digit3 c) (digit4 c) True (digit6 c) (digit7 c)
      else c)"

definition is_whitespace :: "char \<Rightarrow> bool" where
  "is_whitespace c \<longleftrightarrow>
     c = CHR '' '' \<or> c = CHR 0x09 \<or> c = CHR 0x0A \<or> c = CHR 0x0B \<or> c = CHR 0x0C \<or> c = CHR 0x0D"

definition is_digit :: "char \<Rightarrow> bool" where
  "is_digit c \<longleftrightarrow> 48 \<le> (of_char c :: nat) \<and> (of_char c :: nat) \<le> 57"

definition digit_value :: "char \<Rightarrow> nat" where
  "digit_value c = of_char c - 48"

definition digit_char :: "nat \<Rightarrow> char" where
  "digit_char d = char_of (48 + d)"

section \<open>String operations\<close>

text \<open>\<open>str::to_ascii_lowercase\<close> and \<open>str::eq_ignore_ascii_case\<close> (equal length, bytes equal
  after lowering).\<close>

definition to_ascii_lowercase :: "string \<Rightarrow> string" where
  "to_ascii_lowercase s = map ascii_lower s"

definition eq_ignore_ascii_case :: "string \<Rightarrow> string \<Rightarrow> bool" where
  "eq_ignore_ascii_case a b \<longleftrightarrow> list_all2 (\<lambda>x y. ascii_lower x = ascii_lower y) a b"

text \<open>\<open>str::trim\<close> and \<open>str::trim_end\<close>.\<close>

definition trim :: "string \<Rightarrow> string" where
  "trim s = rev (dropWhile is_whitespace (rev (dropWhile is_whitespace s)))"

definition trim_end :: "string \<Rightarrow> string" where
  "trim_end s = rev (dropWhile is_whitespace (rev s))"

text \<open>\<open>str::split(pat)\<close> with a character predicate as pattern: every match separates two
  pieces, empty pieces included, so the result is never empty.\<close>

fun split_by :: "(char \<Rightarrow> bool) \<Rightarrow> string \<Rightarrow> string list" where
  "split_by P [] = [[]]"
| "split_by P (c # cs) =
     (if P c then [] # split_by P cs
      else (let ws = split_by P cs in (c # hd ws) # tl ws))"

text \<open>\<open>str::split_whitespace\<close>: the non-empty pieces of a split at whitespace.\<close>

definition split_whitespace :: "string \<Rightarrow> string list" where
  "split_whitespace s = filter (\<lambda>w. w \<noteq> []) (split_by is_whitespace s)"

text \<open>\<open>str::trim_start_matches\<close> with a string pattern and with a character pattern.\<close>

function trim_start_matches :: "string \<Rightarrow> string \<Rightarrow> string" where
  "trim_start_matches p s =
     (if p \<noteq> [] \<and> prefix p s then trim_start_matches p (drop (length p) s) else s)"
  by pat_completeness auto
termination
  by (relation "measure (\<lambda>(p, s). length s)") (auto dest!: prefix_length_le intro!: diff_less)

declare trim_start_matches.simps [simp del]

definition trim_start_matches_char :: "char \<Rightarrow> string \<Rightarrow> string" where
  "trim_start_matches_char c s = dropWhile (\<lambda>x. x = c) s"

text \<open>\<open>Path::extension\<close> of a file name: the part after the last dot, unless there is no
  dot, the only dot starts the name, or the name is \<open>..\<close>.\<close>

definition rust_extension :: "string \<Rightarrow> string option" where
  "rust_extension name =
     (if name = ''..'' \<or> CHR ''.'' \<notin> set name then None
      else (let r = rev name;
                ext = rev (takeWhile (\<lambda>c. c \<noteq> CHR ''.'') r);
                stem = rev (tl (dropWhile (\<lambda>c. c \<noteq> CHR ''.'') r))
            in if stem = [] then None else Some ext))"

section \<open>Numbers and booleans\<close>

fun parse_digits :: "nat \<Rightarrow> string \<Rightarrow> nat option" where
  "parse_digits acc [] = Some acc"
| "parse_digits acc (c # cs) =
     (if is_digit c then parse_digits (10 * acc + digit_value c) cs else None)"

definition i32_min :: int where "i32_min = - (2 ^ 31)"
definition i32_max :: int where "i32_max = 2 ^ 31 - 1"
definition usize_max :: nat where "usize_max = 2 ^ 64 - 1"

text \<open>\<open>i32::from_str\<close>: an optional sign, then at least one decimal digit, nothing else;
  a value outside the range of \<open>i32\<close> is an error.\<close>

definition parse_i32 :: "string \<Rightarrow> int option" where
  "parse_i32 s =
     (let v = (case s of
                 [] \<Rightarrow> None
               | c # cs \<Rightarrow>
                   if (c = CHR ''+'' \<or> c = CHR ''-'') \<and> cs = [] then None
                   else if c = CHR ''+'' then map_option int (parse_digits 0 cs)
                   else if c = CHR ''-'' then map_option (\<lambda>n. - int n) (parse_digits 0 cs)
                   else map_option int (parse_digits 0 s))
      in case v of
           None \<Rightarrow> None
         | Some n \<Rightarrow> if i32_min \<le> n \<and> n \<le> i32_max then Some n else None)"

text \<open>\<open>usize::from_str\<close>: as above without the minus sign (a leading \<open>-\<close> is an invalid
  digit for an unsigned type).\<close>

definition parse_usize :: "string \<Rightarrow> nat option" where
  "parse_usize s =
     (let v = (case s of
                 [] \<Rightarrow> None
               | c # cs \<Rightarrow>
                   if (c = CHR ''+'' \<or> c = CHR ''-'') \<and> cs = [] then None
                   else if c = CHR ''+'' then parse_digits 0 cs
                   else parse_digits 0 s)
      in case v of
           None \<Rightarrow> None
         | Some n \<Rightarrow> if n \<le> usize_max then Some n else None)"

text \<open>\<open>bool::from_str\<close> accepts exactly \<open>true\<close> and \<open>false\<close>.\<close>

definition parse_bool :: "string \<Rightarrow> bool option" where
  "parse_bool s =
     (if s = ''true'' then Some True else if s = ''false'' then Some False else None)"

text \<open>\<open>Display\<close> of unsigned and signed integers and of \<open>bool\<close>.\<close>

fun nat_to_string :: "nat \<Rightarrow> string" where
  "nat_to_string n =
     (if n < 10 then [digit_char n] else nat_to_string (n div 10) @ [digit_char (n mod 10)])"

declare nat_to_string.simps [simp del]

definition int_to_string :: "int \<Rightarrow> string" where
  "int_to_string i =
     (if i < 0 then CHR ''-'' # nat_to_string (nat (- i)) else nat_to_string (nat i))"

definition bool_to_string :: "bool \<Rightarrow> string" where
  "bool_to_string b = (if b then ''true'' else ''false'')"

lemmas [rust_simps] = is_ascii_uppercase_def ascii_lower_def is_whitespace_def is_digit_def
  digit_value_def digit_char_def to_ascii_lowercase_def trim_def trim_end_def
  split_whitespace_def trim_start_matches_char_def rust_extension_def parse_i32_def
  parse_usize_def parse_bool_def int_to_string_def bool_to_string_def i32_min_def
  i32_max_def usize_max_def

section \<open>Lemmas\<close>

subsection \<open>Case mapping\<close>

lemma ascii_lower_idem [simp]: "ascii_lower (ascii_lower c) = ascii_lower c"
  by (cases c) (simp add: ascii_lower_def is_ascii_uppercase_def)

lemma ascii_lower_space: "ascii_lower c = CHR '' '' \<Longrightarrow> c = CHR '' ''"
  by (cases c) (auto simp: ascii_lower_def is_ascii_uppercase_def of_bool_def split: if_splits)

lemma to_ascii_lowercase_idem [simp]:
  "to_ascii_lowercase (to_ascii_lowercase s) = to_ascii_lowercase s"
  by (simp add: to_ascii_lowercase_def comp_def)

lemma to_ascii_lowercase_Nil [simp]: "to_ascii_lowercase [] = []"
  by (simp add: to_ascii_lowercase_def)

lemma to_ascii_lowercase_Nil_iff [simp]: "to_ascii_lowercase s = [] \<longleftrightarrow> s = []"
  and Nil_to_ascii_lowercase_iff [simp]: "[] = to_ascii_lowercase s \<longleftrightarrow> s = []"
  by (auto simp add: to_ascii_lowercase_def)

lemma eq_ignore_ascii_case_iff:
  "eq_ignore_ascii_case a b \<longleftrightarrow> to_ascii_lowercase a = to_ascii_lowercase b"
  by (simp add: eq_ignore_ascii_case_def to_ascii_lowercase_def list_all2_map_eq_iff)

lemma eq_ignore_ascii_case_refl [simp]: "eq_ignore_ascii_case a a"
  by (simp add: eq_ignore_ascii_case_iff)

lemma eq_ignore_ascii_case_sym: "eq_ignore_ascii_case a b \<longleftrightarrow> eq_ignore_ascii_case b a"
  by (auto simp add: eq_ignore_ascii_case_iff)

lemma eq_ignore_ascii_case_Nil [simp]: "eq_ignore_ascii_case [] b \<longleftrightarrow> b = []"
  by (auto simp add: eq_ignore_ascii_case_iff to_ascii_lowercase_def)

subsection \<open>Splitting\<close>

lemma split_by_not_Nil [simp]: "split_by P s \<noteq> []"
  by (induction s) (auto simp: Let_def)

lemma split_by_no_match:
  "\<not> (\<exists>c\<in>set s. P c) \<Longrightarrow> split_by P s = [s]"
  by (induction s) (auto simp: Let_def)

lemma concat_split_by_no_sep:
  "w \<in> set (split_by P s) \<Longrightarrow> c \<in> set w \<Longrightarrow> \<not> P c"
proof (induction s arbitrary: w)
  case Nil
  then show ?case by simp
next
  case (Cons x s)
  show ?case
  proof (cases "P x")
    case True
    with Cons show ?thesis by auto
  next
    case False
    obtain v vs where sp: "split_by P s = v # vs"
      by (cases "split_by P s") auto
    with Cons.prems False have "w = x # v \<or> w \<in> set vs" by (auto simp: Let_def)
    then show ?thesis
      using Cons.IH[of v] Cons.IH sp Cons.prems(2) False by auto
  qed
qed

lemma split_whitespace_no_ws:
  "w \<in> set (split_whitespace s) \<Longrightarrow> c \<in> set w \<Longrightarrow> \<not> is_whitespace c"
  unfolding split_whitespace_def by (auto dest: concat_split_by_no_sep)

lemma split_whitespace_nonempty:
  "w \<in> set (split_whitespace s) \<Longrightarrow> w \<noteq> []"
  by (simp add: split_whitespace_def)

lemma split_whitespace_word:
  assumes "w \<noteq> []" and "\<forall>c\<in>set w. \<not> is_whitespace c"
  shows "split_whitespace w = [w]"
  using assms by (simp add: split_whitespace_def split_by_no_match)

lemma split_by_append_sep:
  "P c \<Longrightarrow> split_by P (a @ c # b) = split_by P a @ split_by P b"
proof (induction a)
  case Nil
  then show ?case by simp
next
  case (Cons x a)
  then show ?case by (cases "split_by P a") (auto simp: Let_def)
qed

lemma split_whitespace_append_space:
  "split_whitespace (a @ CHR '' '' # b) = split_whitespace a @ split_whitespace b"
  by (simp add: split_whitespace_def split_by_append_sep is_whitespace_def)

lemma split_whitespace_Nil [simp]: "split_whitespace [] = []"
  by (simp add: split_whitespace_def)

subsection \<open>Trimming\<close>

lemma dropWhile_no_match: "\<forall>c\<in>set s. \<not> P c \<Longrightarrow> dropWhile P s = s"
  by (induction s) auto

lemma trim_no_ws:
  "\<forall>c\<in>set s. \<not> is_whitespace c \<Longrightarrow> trim s = s"
  by (simp add: trim_def dropWhile_no_match)

lemma trim_end_no_ws_last:
  "\<not> is_whitespace c \<Longrightarrow> trim_end (s @ [c]) = s @ [c]"
  by (simp add: trim_end_def)

lemma trim_start_matches_no_prefix:
  "\<not> prefix p s \<Longrightarrow> trim_start_matches p s = s"
  by (simp add: trim_start_matches.simps)

subsection \<open>Numbers\<close>

lemma digit_char_is_digit: "d < 10 \<Longrightarrow> is_digit (digit_char d)"
  by (simp add: digit_char_def is_digit_def)

lemma digit_value_digit_char [simp]: "d < 10 \<Longrightarrow> digit_value (digit_char d) = d"
  by (simp add: digit_char_def digit_value_def)

lemma parse_digits_append:
  "parse_digits acc (xs @ ys) =
     (case parse_digits acc xs of None \<Rightarrow> None | Some a \<Rightarrow> parse_digits a ys)"
  by (induction acc xs rule: parse_digits.induct) auto

lemma parse_digits_nat_to_string: "parse_digits 0 (nat_to_string n) = Some n"
proof (induction n rule: nat_to_string.induct)
  case (1 n)
  show ?case
  proof (cases "n < 10")
    case True
    then show ?thesis
      by (simp add: nat_to_string.simps digit_char_is_digit)
  next
    case False
    with "1.IH" have "parse_digits 0 (nat_to_string (n div 10)) = Some (n div 10)" by simp
    with False show ?thesis
      by (simp add: nat_to_string.simps [of n] parse_digits_append digit_char_is_digit)
  qed
qed

lemma nat_to_string_not_Nil [simp]: "nat_to_string n \<noteq> []"
  by (subst nat_to_string.simps) simp

lemma nat_to_string_hd_digit: "is_digit (hd (nat_to_string n))"
proof (induction n rule: nat_to_string.induct)
  case (1 n)
  then show ?case
    by (subst nat_to_string.simps) (simp add: digit_char_is_digit)
qed

lemma nat_to_string_digits: "c \<in> set (nat_to_string n) \<Longrightarrow> is_digit c"
proof (induction n rule: nat_to_string.induct)
  case (1 n)
  then show ?case
    by (subst (asm) nat_to_string.simps) (auto split: if_splits intro: digit_char_is_digit)
qed

lemma nat_to_string_no_comma: "CHR '','' \<notin> set (nat_to_string n)"
  using nat_to_string_digits [of "CHR '',''" n] by (auto simp: is_digit_def)

lemma nat_to_string_no_newline: "CHR 0x0A \<notin> set (nat_to_string n)"
  using nat_to_string_digits [of "CHR 0x0A" n] by (auto simp: is_digit_def)

lemma digit_not_sign: "is_digit c \<Longrightarrow> c \<noteq> CHR ''+'' \<and> c \<noteq> CHR ''-''"
  by (auto simp: is_digit_def)

lemma parse_i32_int_to_string:
  assumes "i32_min \<le> i" and "i \<le> i32_max"
  shows "parse_i32 (int_to_string i) = Some i"
proof (cases "i < 0")
  case True
  then show ?thesis using assms
    by (simp add: parse_i32_def int_to_string_def parse_digits_nat_to_string)
next
  case False
  obtain c cs where cs: "nat_to_string (nat i) = c # cs"
    by (cases "nat_to_string (nat i)") auto
  then have "is_digit c" using nat_to_string_hd_digit [of "nat i"] by simp
  then have "c \<noteq> CHR ''+'' \<and> c \<noteq> CHR ''-''" by (rule digit_not_sign)
  have "parse_digits 0 (c # cs) = Some (nat i)"
    using parse_digits_nat_to_string [of "nat i"] cs by simp
  with \<open>is_digit c\<close> have pd: "parse_digits (digit_value c) cs = Some (nat i)" by simp
  from False cs assms \<open>c \<noteq> CHR ''+'' \<and> c \<noteq> CHR ''-''\<close> \<open>is_digit c\<close> pd show ?thesis
    by (simp add: parse_i32_def int_to_string_def)
qed

lemma parse_bool_bool_to_string [simp]: "parse_bool (bool_to_string b) = Some b"
  by (simp add: parse_bool_def bool_to_string_def)

lemma int_to_string_no_comma: "CHR '','' \<notin> set (int_to_string i)"
  by (simp add: int_to_string_def nat_to_string_no_comma)

lemma int_to_string_no_newline: "CHR 0x0A \<notin> set (int_to_string i)"
  by (simp add: int_to_string_def nat_to_string_no_newline)

lemma int_to_string_last:
  "int_to_string i \<noteq> [] \<and> \<not> is_whitespace (last (int_to_string i))"
proof -
  have "last (nat_to_string (nat \<bar>i\<bar>)) \<in> set (nat_to_string (nat \<bar>i\<bar>))" by simp
  then have "is_digit (last (nat_to_string (nat \<bar>i\<bar>)))" by (rule nat_to_string_digits)
  then show ?thesis by (auto simp: int_to_string_def is_digit_def is_whitespace_def)
qed

lemma nat_to_string_one: "nat_to_string (Suc 0) = ''1''"
  by code_simp

end
