(* ===== verification/Fs.thy ===== *)
theory Fs
  imports RustStr
begin

text \<open>
  The filesystem that \<open>main.rs\<close> reads and writes through \<open>std::fs\<close> and
  \<open>std::path\<close>: a tree whose directories list their entries in \<open>read_dir\<close> order. A
  file carries its contents and whether it can be read; a directory carries whether it can
  be listed; \<open>Other\<close> is an entry that is neither a file nor a directory (a broken
  symbolic link, a socket). These flags are the model's fault oracle: the operations fail
  exactly where the host's calls would. Paths are lists of components, resolved from the
  root; \<open>path_of\<close> reads a path string the way \<open>Path::new\<close> does (components separated
  by \<open>/\<close>, empty components dropped).
\<close>

datatype io_error = NotFound | NotADirectory | AlreadyExists | IsADirectory
  | PermissionDenied | InvalidInput

datatype node =
    File string bool \<comment> \<open>contents, readable\<close>
  | Dir "(string \<times> node) list" bool \<comment> \<open>entries in listing order, listable\<close>
  | Other

fun is_dir :: "node \<Rightarrow> bool" where
  "is_dir (Dir _ _) = True"
| "is_dir _ = False"

fun is_file :: "node \<Rightarrow> bool" where
  "is_file (File _ _) = True"
| "is_file _ = False"

definition path_of :: "string \<Rightarrow> path" where
  "path_of s = filter (\<lambda>c. c \<noteq> []) (split_by (\<lambda>c. c = CHR ''/'') s)"

subsection \<open>Reading\<close>

fun lookup :: "node \<Rightarrow> path \<Rightarrow> node option" where
  "lookup n [] = Some n"
| "lookup (Dir es r) (x # xs) = (case map_of es x of None \<Rightarrow> None | Some c \<Rightarrow> lookup c xs)"
| "lookup _ (x # xs) = None"

text \<open>\<open>Path::exists\<close>: the empty path names no file.\<close>

definition path_exists :: "node \<Rightarrow> string \<Rightarrow> bool" where
  "path_exists fs s \<longleftrightarrow> s \<noteq> [] \<and> lookup fs (path_of s) \<noteq> None"

text \<open>\<open>fs::read_dir\<close>: the entries of a listable directory.\<close>

definition read_dir :: "node \<Rightarrow> path \<Rightarrow> io_error + (string \<times> node) list" where
  "read_dir fs p =
     (case lookup fs p of
        None \<Rightarrow> Inl NotFound
      | Some (Dir es True) \<Rightarrow> Inr es
      | Some (Dir es False) \<Rightarrow> Inl PermissionDenied
      | Some _ \<Rightarrow> Inl NotADirectory)"

subsection \<open>Writing\<close>

fun set_child :: "string \<Rightarrow> node \<Rightarrow> (string \<times> node) list \<Rightarrow> (string \<times> node) list" where
  "set_child x n [] = [(x, n)]"
| "set_child x n ((y, m) # es) = (if y = x then (x, n) # es else (y, m) # set_child x n es)"

fun del_child :: "string \<Rightarrow> (string \<times> node) list \<Rightarrow> (string \<times> node) list" where
  "del_child x [] = []"
| "del_child x ((y, m) # es) = (if y = x then es else (y, m) # del_child x es)"

text \<open>Change the entry \<open>x\<close> of the directory at path \<open>ps\<close>: \<open>f\<close> gets the present entry
  and returns the new one (\<open>None\<close> removes it) or an error.\<close>

fun modify_at ::
  "path \<Rightarrow> string \<Rightarrow> (node option \<Rightarrow> io_error + node option) \<Rightarrow> node \<Rightarrow> io_error + node" where
  "modify_at [] x f (Dir es r) =
     (case f (map_of es x) of
        Inl e \<Rightarrow> Inl e
      | Inr None \<Rightarrow> Inr (Dir (del_child x es) r)
      | Inr (Some n) \<Rightarrow> Inr (Dir (set_child x n es) r))"
| "modify_at (y # ys) x f (Dir es r) =
     (case map_of es y of
        None \<Rightarrow> Inl NotFound
      | Some c \<Rightarrow> (case modify_at ys x f c of
                    Inl e \<Rightarrow> Inl e
                  | Inr c' \<Rightarrow> Inr (Dir (set_child y c' es) r)))"
| "modify_at _ x f _ = Inl NotADirectory"

fun fresh_dirs :: "path \<Rightarrow> node" where
  "fresh_dirs [] = Dir [] True"
| "fresh_dirs (x # xs) = Dir [(x, fresh_dirs xs)] True"

text \<open>\<open>fs::create_dir_all\<close>: create every missing directory of the path; an existing
  non-directory on the way fails (\<open>NotADirectory\<close>), at its end too (\<open>AlreadyExists\<close>).\<close>

fun create_dir_all :: "path \<Rightarrow> node \<Rightarrow> io_error + node" where
  "create_dir_all [] n = (if is_dir n then Inr n else Inl AlreadyExists)"
| "create_dir_all (x # xs) (Dir es r) =
     (case map_of es x of
        None \<Rightarrow> Inr (Dir (set_child x (fresh_dirs xs) es) r)
      | Some c \<Rightarrow> (case create_dir_all xs c of
                    Inl e \<Rightarrow> Inl e
                  | Inr c' \<Rightarrow> Inr (Dir (set_child x c' es) r)))"
| "create_dir_all (x # xs) _ = Inl NotADirectory"

text \<open>\<open>fs::copy\<close> of a file node to a path: the source must be a readable file; the
  target is created or truncated, and a directory in its place is an error.\<close>

definition write_entry :: "string \<Rightarrow> node option \<Rightarrow> io_error + node option" where
  "write_entry c old =
     (case old of Some (Dir _ _) \<Rightarrow> Inl IsADirectory | _ \<Rightarrow> Inr (Some (File c True)))"

definition fs_copy :: "node \<Rightarrow> path \<Rightarrow> node \<Rightarrow> io_error + node" where
  "fs_copy src to fs =
     (case src of
        File c True \<Rightarrow>
          (if to = [] then Inl IsADirectory
           else modify_at (butlast to) (last to) (write_entry c) fs)
      | File c False \<Rightarrow> Inl PermissionDenied
      | _ \<Rightarrow> Inl InvalidInput)"

text \<open>Creating or truncating a file with given contents (what an external tool does when it
  writes its output file).\<close>

definition write_file :: "path \<Rightarrow> string \<Rightarrow> node \<Rightarrow> io_error + node" where
  "write_file p c fs = (if p = [] then Inl IsADirectory else modify_at (butlast p) (last p) (write_entry c) fs)"

text \<open>\<open>fs::remove_file\<close>.\<close>

definition remove_entry :: "node option \<Rightarrow> io_error + node option" where
  "remove_entry old =
     (case old of None \<Rightarrow> Inl NotFound | Some (Dir _ _) \<Rightarrow> Inl IsADirectory | Some _ \<Rightarrow> Inr None)"

definition remove_file :: "path \<Rightarrow> node \<Rightarrow> io_error + node" where
  "remove_file p fs =
     (if p = [] then Inl IsADirectory else modify_at (butlast p) (last p) remove_entry fs)"

subsection \<open>Subtrees\<close>

text \<open>\<open>replace_at p d fs\<close> puts \<open>d\<close> in place of the node at path \<open>p\<close> (no change where
  \<open>p\<close> names nothing); it describes what an operation below \<open>p\<close> does to the whole tree.\<close>

fun replace_at :: "path \<Rightarrow> node \<Rightarrow> node \<Rightarrow> node" where
  "replace_at [] d n = d"
| "replace_at (x # xs) d (Dir es r) =
     (case map_of es x of None \<Rightarrow> Dir es r | Some c \<Rightarrow> Dir (set_child x (replace_at xs d c) es) r)"
| "replace_at (x # xs) d n = n"

subsection \<open>Well-formed trees\<close>

text \<open>Entry names are unique in every directory, as on a real filesystem.\<close>

fun names_distinct :: "node \<Rightarrow> bool"
and entries_distinct :: "(string \<times> node) list \<Rightarrow> bool" where
  "names_distinct (Dir es r) \<longleftrightarrow> entries_distinct es"
| "names_distinct n \<longleftrightarrow> True"
| "entries_distinct [] \<longleftrightarrow> True"
| "entries_distinct ((x, c) # es) \<longleftrightarrow>
     x \<notin> set (map fst es) \<and> names_distinct c \<and> entries_distinct es"

text \<open>The type invariant of the filesystem: the root is a directory and entry names are
  unique in every directory.\<close>

definition fs_wf :: "node \<Rightarrow> bool" where
  "fs_wf fs \<longleftrightarrow> is_dir fs \<and> names_distinct fs"

section \<open>Lemmas\<close>

subsection \<open>Entry lists\<close>

lemma map_of_set_child [simp]: "map_of (set_child x n es) = (map_of es)(x \<mapsto> n)"
  by (induction x n es rule: set_child.induct) (auto simp: fun_eq_iff)

lemma map_of_del_child_other: "y \<noteq> x \<Longrightarrow> map_of (del_child x es) y = map_of es y"
  by (induction x es rule: del_child.induct) auto

lemma set_child_set_child [simp]: "set_child x a (set_child x b es) = set_child x a es"
  by (induction x b es rule: set_child.induct) auto

lemma set_child_new: "map_of es x = None \<Longrightarrow> set_child x n es = es @ [(x, n)]"
  by (induction x n es rule: set_child.induct) (auto split: if_splits)

lemma set_child_same: "map_of es x = Some n \<Longrightarrow> set_child x n es = es"
  by (induction x n es rule: set_child.induct) (auto split: if_splits)

lemma Cons_parallel_Cons_iff: "a # as \<parallel> b # bs \<longleftrightarrow> a \<noteq> b \<or> as \<parallel> bs"
  by (auto simp: parallel_def)

subsection \<open>Fresh directories\<close>

lemma lookup_fresh_dirs:
  "lookup (fresh_dirs xs) q = (if prefix q xs then Some (fresh_dirs (drop (length q) xs)) else None)"
proof (induction xs arbitrary: q)
  case Nil
  then show ?case by (cases q) auto
next
  case (Cons x xs)
  then show ?case by (cases q) auto
qed

lemma is_dir_fresh_dirs [simp]: "is_dir (fresh_dirs xs)"
  by (cases xs) auto

subsection \<open>Frame: a write at one path leaves every parallel path alone\<close>

lemma create_dir_all_frame:
  "create_dir_all p fs = Inr fs' \<Longrightarrow> p \<parallel> q \<Longrightarrow> lookup fs' q = lookup fs q"
proof (induction p fs arbitrary: fs' q rule: create_dir_all.induct)
  case (2 x xs es r)
  obtain y q' where q: "q = y # q'" using "2.prems"(2) by (cases q) auto
  show ?case
  proof (cases "y = x")
    case False
    with "2.prems"(1) show ?thesis by (auto simp: q split: option.splits sum.splits)
  next
    case True
    then have par: "xs \<parallel> q'" using "2.prems"(2) q by (simp add: Cons_parallel_Cons_iff)
    then have "\<not> prefix q' xs" by (auto simp: parallel_def)
    with "2.prems"(1) "2.IH" par True show ?thesis
      by (auto simp: q lookup_fresh_dirs split: option.splits sum.splits)
  qed
qed auto

lemma modify_at_frame:
  "modify_at ps x f fs = Inr fs' \<Longrightarrow> ps @ [x] \<parallel> q \<Longrightarrow> lookup fs' q = lookup fs q"
proof (induction ps x f fs arbitrary: fs' q rule: modify_at.induct)
  case (1 x f es r)
  obtain y q' where q: "q = y # q'" and "y \<noteq> x \<or> [] \<parallel> q'"
    using "1.prems"(2) by (cases q) (auto simp: Cons_parallel_Cons_iff)
  then have "y \<noteq> x" by simp
  with "1.prems"(1) show ?case
    by (auto simp: q map_of_del_child_other split: sum.splits option.splits)
next
  case (2 y ys x f es r)
  obtain z q' where q: "q = z # q'" using "2.prems"(2) by (cases q) auto
  show ?case
  proof (cases "z = y")
    case False
    with "2.prems"(1) show ?thesis by (auto simp: q split: option.splits sum.splits)
  next
    case True
    then have "ys @ [x] \<parallel> q'" using "2.prems"(2) q by (simp add: Cons_parallel_Cons_iff)
    with "2.prems"(1) "2.IH" True show ?thesis
      by (auto simp: q split: option.splits sum.splits)
  qed
qed auto

subsection \<open>Locality: an operation below a path acts on the subtree there\<close>

lemma lookup_replace_at_same:
  "lookup fs p \<noteq> None \<Longrightarrow> lookup (replace_at p d fs) (p @ q) = lookup d q"
proof (induction p d fs rule: replace_at.induct)
  case (2 x xs d es r)
  then show ?case by (auto split: option.splits)
qed auto

lemma lookup_replace_at_parallel:
  "p \<parallel> q \<Longrightarrow> lookup (replace_at p d fs) q = lookup fs q"
proof (induction p d fs arbitrary: q rule: replace_at.induct)
  case (2 x xs d es r)
  obtain y q' where q: "q = y # q'" using "2.prems" by (cases q) auto
  with "2.prems" "2.IH" show ?case
    by (cases "y = x") (auto simp: Cons_parallel_Cons_iff split: option.splits)
qed auto

lemma replace_at_replace_at [simp]:
  "replace_at p d2 (replace_at p d1 fs) = replace_at p d2 fs"
proof (induction p d1 fs rule: replace_at.induct)
  case (2 x xs d es r)
  then show ?case by (auto split: option.splits)
qed auto

lemma replace_at_append:
  "lookup fs p = Some d0 \<Longrightarrow> replace_at (p @ q) d fs = replace_at p (replace_at q d d0) fs"
proof (induction p d0 fs arbitrary: d0 rule: replace_at.induct)
  case (2 x xs d es r)
  then show ?case by (auto split: option.splits)
qed auto

lemma replace_at_lookup_self: "lookup fs p = Some d \<Longrightarrow> replace_at p d fs = fs"
proof (induction p d fs rule: replace_at.induct)
  case (2 x xs d es r)
  then show ?case by (auto simp: set_child_same split: option.splits)
qed auto

lemma create_dir_all_existing: "lookup fs p = Some n \<Longrightarrow> is_dir n \<Longrightarrow> create_dir_all p fs = Inr fs"
proof (induction p fs rule: create_dir_all.induct)
  case (2 x xs es r)
  then show ?case by (auto simp: set_child_same split: option.splits)
qed auto

lemma create_dir_all_local:
  "lookup fs p = Some d0 \<Longrightarrow>
     create_dir_all (p @ q) fs = map_sum id (\<lambda>d'. replace_at p d' fs) (create_dir_all q d0)"
proof (induction p arbitrary: fs)
  case Nil
  then show ?case by (cases "create_dir_all q d0") auto
next
  case (Cons x xs)
  then obtain es r c where fs: "fs = Dir es r" and c: "map_of es x = Some c" and "lookup c xs = Some d0"
    by (cases fs) (auto split: option.splits)
  with Cons.IH show ?case by (cases "create_dir_all q d0") auto
qed

lemma modify_at_local:
  "lookup fs p = Some d0 \<Longrightarrow>
     modify_at (p @ q) x f fs = map_sum id (\<lambda>d'. replace_at p d' fs) (modify_at q x f d0)"
proof (induction p arbitrary: fs)
  case Nil
  then show ?case by (cases "modify_at q x f d0") auto
next
  case (Cons y ys)
  then obtain es r c where fs: "fs = Dir es r" and c: "map_of es y = Some c" and "lookup c ys = Some d0"
    by (cases fs) (auto split: option.splits)
  with Cons.IH show ?case by (cases "modify_at q x f d0") auto
qed

lemma write_file_frame: "write_file p c fs = Inr fs' \<Longrightarrow> p \<parallel> q \<Longrightarrow> lookup fs' q = lookup fs q"
  by (auto simp: write_file_def split: if_splits intro: modify_at_frame)

lemma remove_file_frame: "remove_file p fs = Inr fs' \<Longrightarrow> p \<parallel> q \<Longrightarrow> lookup fs' q = lookup fs q"
  by (auto simp: remove_file_def split: if_splits intro: modify_at_frame)

lemma lookup_append:
  "lookup fs (p @ q) = (case lookup fs p of None \<Rightarrow> None | Some n \<Rightarrow> lookup n q)"
proof (induction p arbitrary: fs)
  case Nil
  then show ?case by simp
next
  case (Cons x xs)
  then show ?case by (cases fs) (auto split: option.splits)
qed

subsection \<open>Files: what a write leaves at its path\<close>

text \<open>A file lies in a directory: every path a lookup reaches through is one.\<close>

lemma lookup_file_parent:
  assumes "lookup fs p = Some (File c r)" and "p \<noteq> []"
  obtains es rd where "lookup fs (butlast p) = Some (Dir es rd)" and "map_of es (last p) = Some (File c r)"
proof -
  have "lookup fs (butlast p @ [last p]) = Some (File c r)" using assms by simp
  then obtain d where "lookup fs (butlast p) = Some d" and "lookup d [last p] = Some (File c r)"
    by (auto simp: lookup_append split: option.splits)
  then show ?thesis using that by (cases d) (auto split: option.splits)
qed

lemma write_file_over_file:
  assumes "lookup fs p = Some (File c r)" and "p \<noteq> []"
  obtains fs' where "write_file p c' fs = Inr fs'" and "lookup fs' p = Some (File c' True)"
proof -
  obtain es rd where d: "lookup fs (butlast p) = Some (Dir es rd)" and x: "map_of es (last p) = Some (File c r)"
    using assms by (rule lookup_file_parent)
  let ?fs' = "replace_at (butlast p) (Dir (set_child (last p) (File c' True) es) rd) fs"
  have "write_file p c' fs = Inr ?fs'"
    using modify_at_local [OF d, of "[]" "last p" "write_entry c'"] x assms(2)
    by (simp add: write_file_def write_entry_def)
  moreover have "lookup ?fs' p = Some (File c' True)"
    using lookup_replace_at_same [of fs "butlast p" _ "[last p]"] d assms(2) by simp
  ultimately show ?thesis using that by blast
qed

subsection \<open>Well-formedness: every operation keeps it\<close>

lemma entries_distinct_member:
  "entries_distinct es \<Longrightarrow> (x, c) \<in> set es \<Longrightarrow> map_of es x = Some c \<and> names_distinct c"
proof (induction es)
  case (Cons a es)
  then show ?case by (cases a) (auto simp: image_iff)
qed simp

lemma entries_distinct_map_of:
  "entries_distinct es \<Longrightarrow> map_of es x = Some c \<Longrightarrow> names_distinct c"
  using entries_distinct_member map_of_SomeD by fastforce

lemma fst_set_child [simp]: "fst ` set (set_child x n es) = insert x (fst ` set es)"
  by (induction x n es rule: set_child.induct) auto

lemma entries_distinct_set_child:
  "entries_distinct es \<Longrightarrow> names_distinct n \<Longrightarrow> entries_distinct (set_child x n es)"
  by (induction x n es rule: set_child.induct) auto

lemma fst_del_child: "fst ` set (del_child x es) \<subseteq> fst ` set es"
  by (induction x es rule: del_child.induct) auto

lemma entries_distinct_del_child: "entries_distinct es \<Longrightarrow> entries_distinct (del_child x es)"
  by (induction x es rule: del_child.induct) (use fst_del_child in auto)

lemma names_distinct_fresh_dirs [simp]: "names_distinct (fresh_dirs xs)"
  by (induction xs) auto

lemma modify_at_wf:
  assumes "modify_at p x f fs = Inr fs'" and "names_distinct fs"
    and "\<And>old n. f old = Inr (Some n) \<Longrightarrow> names_distinct n"
  shows "names_distinct fs' \<and> is_dir fs'"
  using assms
proof (induction p x f fs arbitrary: fs' rule: modify_at.induct)
  case (1 x f es r)
  then show ?case
    by (auto simp: entries_distinct_set_child entries_distinct_del_child split: sum.splits option.splits)
next
  case (2 y ys x f es r)
  then show ?case
    by (auto simp: entries_distinct_set_child entries_distinct_map_of split: sum.splits option.splits)
qed simp_all

lemma create_dir_all_wf:
  "create_dir_all p fs = Inr fs' \<Longrightarrow> names_distinct fs \<Longrightarrow> names_distinct fs' \<and> (is_dir fs \<longrightarrow> is_dir fs')"
proof (induction p fs arbitrary: fs' rule: create_dir_all.induct)
  case (2 x xs es r)
  then show ?case
    by (auto simp: entries_distinct_set_child entries_distinct_map_of split: sum.splits option.splits)
qed (auto split: if_splits)

lemma write_entry_wf: "write_entry c old = Inr (Some n) \<Longrightarrow> names_distinct n"
  by (auto simp: write_entry_def split: option.splits node.splits)

lemma remove_entry_wf: "remove_entry old = Inr (Some n) \<Longrightarrow> names_distinct n"
  by (auto simp: remove_entry_def split: option.splits node.splits)

lemma fs_copy_wf: "fs_copy n q fs = Inr fs' \<Longrightarrow> fs_wf fs \<Longrightarrow> fs_wf fs'"
  using modify_at_wf [OF _ _ write_entry_wf]
  by (auto simp: fs_copy_def fs_wf_def split: node.splits bool.splits if_splits)

lemma write_file_wf: "write_file q c fs = Inr fs' \<Longrightarrow> fs_wf fs \<Longrightarrow> fs_wf fs'"
  using modify_at_wf [OF _ _ write_entry_wf] by (auto simp: write_file_def fs_wf_def split: if_splits)

lemma remove_file_wf: "remove_file q fs = Inr fs' \<Longrightarrow> fs_wf fs \<Longrightarrow> fs_wf fs'"
  using modify_at_wf [OF _ _ remove_entry_wf] by (auto simp: remove_file_def fs_wf_def split: if_splits)

lemma create_dir_all_fs_wf: "create_dir_all p fs = Inr fs' \<Longrightarrow> fs_wf fs \<Longrightarrow> fs_wf fs'"
  using create_dir_all_wf by (auto simp: fs_wf_def)

end
