(* ===== verification/Job.thy ===== *)
theory Job
  imports Fs
begin

text \<open>
  The job model of \<open>main.rs\<close>: the \<open>Schedule\<close> struct, the \<open>AppMsg\<close> enum of the
  worker-to-controller channel, the log lines the program writes, and the \<open>AppState\<close>
  struct of the controller with its small helpers (\<open>log\<close>, \<open>clear_inputs\<close>,
  \<open>fill_inputs_from\<close>, \<open>default_backup_root\<close>). The channel \<open>tx\<close>/\<open>rx\<close> is the
  field \<open>rx\<close>: the queue of messages sent and not yet received. Log lines are kept as
  values of \<open>log_line\<close>, one constructor per message format of the source; the wall-clock
  prefix that \<open>log\<close> puts in front of each is not modelled.
\<close>

record schedule =
  source_dir :: string
  dest_dir :: string
  period_hours :: int \<comment> \<open>\<open>i32\<close>\<close>
  skip_file_exts_label :: string
  skip_folders_label :: string
  use_zip :: bool
  last_time :: timestamp
  is_running :: bool

text \<open>\<open>Schedule::new\<close>; \<open>now\<close> is \<open>Local::now()\<close>.\<close>

definition schedule_new ::
  "string \<Rightarrow> string \<Rightarrow> int \<Rightarrow> string \<Rightarrow> string \<Rightarrow> bool \<Rightarrow> timestamp \<Rightarrow> schedule" where
  "schedule_new src dst period exts folders usezip now =
     \<lparr>source_dir = src, dest_dir = dst, period_hours = period, skip_file_exts_label = exts,
      skip_folders_label = folders, use_zip = usezip, last_time = now, is_running = False\<rparr>"

datatype zip_status = ZipSuccess | ZipExit int | ZipLaunchError

datatype log_line =
    LDuplicateExtension | LDuplicateFolder
  | LSourceEmpty | LSourceMissing | LDestEmpty | LCreateDestFailed io_error
  | LSelectToEdit | LInvalidSource | LInvalidDest
  | LSelectToDelete | LSelectToRun | LAlreadyRunning
  | LBackupCompleted | LBackupFailed | LBackupStarted string | LLoaded nat
  | LSourceNotExist string | LWorkerCreateDestFailed io_error | LRunStarted string
  | LCopyFailed io_error | LZipped string | LZipExited int | LZipLaunchFailed
  | LRunCompleted string | LFileCopyFailed path path io_error | LDestEqualsSource

datatype app_msg = Log log_line | BackupFinished nat bool

record app_state =
  schedules :: "schedule list"
  selected_index :: "nat option"
  input_source_dir :: string
  input_dest_dir :: string
  input_period_hours :: string
  input_skip_file_ext :: string
  input_skip_folder :: string
  label_skip_files :: string
  label_skip_folders :: string
  input_use_zip :: bool
  logs :: "log_line list"
  rx :: "app_msg list"
  last_tick :: instant

text \<open>\<open>Path::join\<close> of a single component.\<close>

definition path_join :: "string \<Rightarrow> string \<Rightarrow> string" where
  "path_join a b =
     (if a = [] then b else if last a = CHR ''/'' then a @ b else a @ CHR ''/'' # b)"

text \<open>\<open>default_backup_root\<close>; \<open>home\<close> is \<open>dirs_next::home_dir()\<close>.\<close>

definition default_backup_root :: "string option \<Rightarrow> string" where
  "default_backup_root home =
     (case home of Some h \<Rightarrow> path_join h ''BackUp'' | None \<Rightarrow> ''./BackUp'')"

text \<open>\<open>default_dest_for_source\<close>: the default backup root joined with the last
  component of the source, \<open>Path::file_name\<close>, which is none when the normalised path
  (interior \<open>.\<close> components dropped) is empty or ends in \<open>..\<close>.\<close>

definition file_name :: "string \<Rightarrow> string option" where
  "file_name s =
     (let cs = filter (\<lambda>c. c \<noteq> ''.'') (path_of s)
      in if cs = [] \<or> last cs = ''..'' then None else Some (last cs))"

definition default_dest_for_source :: "string option \<Rightarrow> string \<Rightarrow> string" where
  "default_dest_for_source home source =
     path_join (default_backup_root home) (case file_name source of Some l \<Rightarrow> l | None \<Rightarrow> ''backup'')"

text \<open>\<open>AppState::default\<close> up to the call of \<open>load_data\<close>.\<close>

definition app_init :: "string option \<Rightarrow> instant \<Rightarrow> app_state" where
  "app_init home t0 =
     \<lparr>schedules = [], selected_index = None, input_source_dir = [],
      input_dest_dir = default_backup_root home, input_period_hours = ''24'',
      input_skip_file_ext = [], input_skip_folder = [], label_skip_files = [],
      label_skip_folders = [], input_use_zip = False, logs = [], rx = [], last_tick = t0\<rparr>"

definition log :: "log_line \<Rightarrow> app_state \<Rightarrow> app_state" where
  "log l st = st\<lparr>logs := logs st @ [l]\<rparr>"

definition clear_inputs :: "string option \<Rightarrow> app_state \<Rightarrow> app_state" where
  "clear_inputs home st =
     st\<lparr>input_source_dir := [], input_dest_dir := default_backup_root home,
        input_period_hours := ''24'', input_skip_file_ext := [], input_skip_folder := [],
        label_skip_files := [], label_skip_folders := [], input_use_zip := False\<rparr>"

definition fill_inputs_from :: "nat \<Rightarrow> app_state \<Rightarrow> app_state" where
  "fill_inputs_from idx st =
     (if idx \<ge> length (schedules st) then st
      else (let s = schedules st ! idx in
            st\<lparr>input_source_dir := source_dir s, input_dest_dir := dest_dir s,
               input_period_hours := int_to_string (period_hours s),
               label_skip_files := skip_file_exts_label s,
               label_skip_folders := skip_folders_label s, input_use_zip := use_zip s\<rparr>))"

lemma log_schedules [simp]: "schedules (log l st) = schedules st"
  and log_selected [simp]: "selected_index (log l st) = selected_index st"
  and log_rx [simp]: "rx (log l st) = rx st"
  and log_logs [simp]: "logs (log l st) = logs st @ [l]"
  and log_label_skip_files [simp]: "label_skip_files (log l st) = label_skip_files st"
  and log_label_skip_folders [simp]: "label_skip_folders (log l st) = label_skip_folders st"
  and log_last_tick [simp]: "last_tick (log l st) = last_tick st"
  by (simp_all add: log_def)

lemma clear_inputs_schedules [simp]: "schedules (clear_inputs h st) = schedules st"
  and clear_inputs_selected [simp]: "selected_index (clear_inputs h st) = selected_index st"
  and clear_inputs_rx [simp]: "rx (clear_inputs h st) = rx st"
  and clear_inputs_logs [simp]: "logs (clear_inputs h st) = logs st"
  and clear_inputs_last_tick [simp]: "last_tick (clear_inputs h st) = last_tick st"
  by (simp_all add: clear_inputs_def)

lemma fill_inputs_from_schedules [simp]: "schedules (fill_inputs_from i st) = schedules st"
  and fill_inputs_from_selected [simp]: "selected_index (fill_inputs_from i st) = selected_index st"
  and fill_inputs_from_rx [simp]: "rx (fill_inputs_from i st) = rx st"
  and fill_inputs_from_logs [simp]: "logs (fill_inputs_from i st) = logs st"
  and fill_inputs_from_last_tick [simp]: "last_tick (fill_inputs_from i st) = last_tick st"
  by (simp_all add: fill_inputs_from_def Let_def)

end
