(* ===== verification/SkipList.thy ===== *)
theory SkipList
  imports Job
begin

text \<open>
  The skip rules of a job. The controller keeps them as two labels, space-separated
  words: \<open>add_skip_file_ext\<close> and \<open>add_skip_folder\<close> append a word unless a word equal
  to it up to ASCII case is present (then they log a duplicate warning).
  \<open>parse_skip_tokens\<close> turns the extension label into the lower-case extensions the copy
  compares against, \<open>skip_folder_tokens\<close> the folder label into lower-case names
  (\<open>execute_backup\<close>), and \<open>file_skipped\<close>/\<open>folder_skipped\<close> are the two tests of
  \<open>copy_recursive\<close>. The lemmas show the duplicate check, the no-duplicate invariant of
  the labels, and how the tests decide.
\<close>

section \<open>Editing the labels\<close>

definition add_skip_file_ext :: "app_state \<Rightarrow> app_state" where
  "add_skip_file_ext st =
     (let ext = trim (input_skip_file_ext st) in
      if ext = [] then st
      else (let token = ''*.'' @ ext in
            if list_ex (\<lambda>e. eq_ignore_ascii_case e token) (split_whitespace (label_skip_files st))
            then log LDuplicateExtension st
            else st\<lparr>label_skip_files :=
                      (if label_skip_files st = [] then token
                       else label_skip_files st @ CHR '' '' # token),
                    input_skip_file_ext := []\<rparr>))"

definition add_skip_folder :: "app_state \<Rightarrow> app_state" where
  "add_skip_folder st =
     (let name = trim (input_skip_folder st) in
      if name = [] then st
      else if list_ex (\<lambda>e. eq_ignore_ascii_case e name) (split_whitespace (label_skip_folders st))
      then log LDuplicateFolder st
      else st\<lparr>label_skip_folders :=
                (if label_skip_folders st = [] then name
                 else label_skip_folders st @ CHR '' '' # name),
              input_skip_folder := []\<rparr>)"

section \<open>Reading the labels and the two tests\<close>

definition parse_skip_tokens :: "string \<Rightarrow> string list" where
  "parse_skip_tokens label =
     map (to_ascii_lowercase \<circ> trim_start_matches_char CHR ''.'' \<circ> trim_start_matches ''*.'')
       (filter (\<lambda>s. s \<noteq> []) (map trim (split_whitespace label)))"

definition skip_folder_tokens :: "string \<Rightarrow> string list" where
  "skip_folder_tokens label = map to_ascii_lowercase (split_whitespace label)"

definition file_ext_lower :: "string \<Rightarrow> string" where
  "file_ext_lower name =
     to_ascii_lowercase (case rust_extension name of None \<Rightarrow> [] | Some e \<Rightarrow> e)"

definition file_skipped :: "string list \<Rightarrow> string \<Rightarrow> bool" where
  "file_skipped exts name \<longleftrightarrow> file_ext_lower name \<noteq> [] \<and> file_ext_lower name \<in> set exts"

definition folder_skipped :: "string list \<Rightarrow> string \<Rightarrow> bool" where
  "folder_skipped folders name \<longleftrightarrow> list_ex (\<lambda>f. eq_ignore_ascii_case f name) folders"

text \<open>The words of a label are distinct up to ASCII case.\<close>

definition label_wf :: "string \<Rightarrow> bool" where
  "label_wf label \<longleftrightarrow> distinct (map to_ascii_lowercase (split_whitespace label))"

definition no_ws :: "string \<Rightarrow> bool" where
  "no_ws s \<longleftrightarrow> list_all (\<lambda>c. \<not> is_whitespace c) s"

section \<open>Lemmas\<close>

lemma no_ws_append [simp]: "no_ws (a @ b) \<longleftrightarrow> no_ws a \<and> no_ws b"
  by (simp add: no_ws_def)

lemma no_ws_star_dot [simp]: "no_ws (CHR ''*'' # CHR ''.'' # s) \<longleftrightarrow> no_ws s"
  by (simp add: no_ws_def is_whitespace_def)

lemma split_whitespace_no_ws_word:
  "w \<noteq> [] \<Longrightarrow> no_ws w \<Longrightarrow> split_whitespace w = [w]"
  by (simp add: no_ws_def split_whitespace_word list_all_iff)

lemma split_whitespace_snoc_word:
  assumes "w \<noteq> []" and "no_ws w"
  shows "split_whitespace (if l = [] then w else l @ CHR '' '' # w) = split_whitespace l @ [w]"
  using assms by (simp add: split_whitespace_append_space split_whitespace_no_ws_word)

lemma list_ex_eq_ignore_iff:
  "list_ex (\<lambda>e. eq_ignore_ascii_case e t) ws \<longleftrightarrow>
     to_ascii_lowercase t \<in> set (map to_ascii_lowercase ws)"
  by (auto simp: list_ex_iff eq_ignore_ascii_case_iff) (metis image_eqI)

lemma label_wf_snoc:
  assumes "w \<noteq> []" and "no_ws w" and "label_wf l"
    and "\<not> list_ex (\<lambda>e. eq_ignore_ascii_case e w) (split_whitespace l)"
  shows "label_wf (if l = [] then w else l @ CHR '' '' # w)"
  using assms by (simp add: label_wf_def split_whitespace_snoc_word list_ex_eq_ignore_iff)

lemma label_wf_Nil [simp]: "label_wf []"
  by (simp add: label_wf_def)

lemma list_ex_eq_ignore_trans:
  "list_ex (\<lambda>e. eq_ignore_ascii_case e t) ws \<Longrightarrow> eq_ignore_ascii_case t t'
     \<Longrightarrow> list_ex (\<lambda>e. eq_ignore_ascii_case e t') ws"
  by (simp add: list_ex_eq_ignore_iff eq_ignore_ascii_case_iff)

lemma eq_ignore_ascii_case_append_left:
  "eq_ignore_ascii_case b c \<Longrightarrow> eq_ignore_ascii_case (a @ b) (a @ c)"
  by (simp add: eq_ignore_ascii_case_iff to_ascii_lowercase_def)

lemma eq_ignore_ascii_case_Nil_iff: "eq_ignore_ascii_case a b \<Longrightarrow> a = [] \<longleftrightarrow> b = []"
  by (auto simp: eq_ignore_ascii_case_iff to_ascii_lowercase_def)

lemma list_ex_snoc_word:
  "w \<noteq> [] \<Longrightarrow> no_ws w \<Longrightarrow>
     list_ex (\<lambda>e. eq_ignore_ascii_case e w) (split_whitespace (if l = [] then w else l @ CHR '' '' # w))"
  by (simp add: split_whitespace_snoc_word)

lemma eq_ignore_ascii_case_space:
  assumes "no_ws e" and "CHR '' '' \<in> set t"
  shows "\<not> eq_ignore_ascii_case e t"
proof
  assume "eq_ignore_ascii_case e t"
  then have "map ascii_lower e = map ascii_lower t" by (simp add: eq_ignore_ascii_case_iff to_ascii_lowercase_def)
  moreover have "ascii_lower CHR '' '' = CHR '' ''" by (simp add: ascii_lower_def is_ascii_uppercase_def)
  ultimately have "CHR '' '' \<in> set (map ascii_lower e)" using assms(2) by (metis image_eqI list.set_map)
  then obtain c where "c \<in> set e" "ascii_lower c = CHR '' ''" by auto
  with assms(1) show False by (auto simp: no_ws_def list_all_iff is_whitespace_def dest: ascii_lower_space)
qed

text \<open>After a word was added, the label holds it (up to case), whether it was new or not.\<close>

lemma add_skip_file_ext_present:
  assumes "trim x \<noteq> []" and "no_ws (trim x)"
  shows "list_ex (\<lambda>e. eq_ignore_ascii_case e (''*.'' @ trim x))
           (split_whitespace (label_skip_files (add_skip_file_ext (st\<lparr>input_skip_file_ext := x\<rparr>))))"
proof -
  have "''*.'' @ trim x \<noteq> []" and "no_ws (''*.'' @ trim x)" using assms by simp_all
  from list_ex_snoc_word [OF this, where l = "label_skip_files st"] show ?thesis
    using assms by (auto simp: add_skip_file_ext_def Let_def)
qed

lemma add_skip_folder_present:
  assumes "trim x \<noteq> []" and "no_ws (trim x)"
  shows "list_ex (\<lambda>e. eq_ignore_ascii_case e (trim x))
           (split_whitespace (label_skip_folders (add_skip_folder (st\<lparr>input_skip_folder := x\<rparr>))))"
  using assms list_ex_snoc_word [of "trim x" "label_skip_folders st"]
  by (auto simp: add_skip_folder_def Let_def)

lemma parse_skip_tokens_star_word:
  assumes "e \<noteq> []" and "CHR ''.'' \<notin> set e" and "no_ws e"
  shows "parse_skip_tokens (''*.'' @ e) = [to_ascii_lowercase e]"
proof -
  have ws: "split_whitespace (''*.'' @ e) = [''*.'' @ e]"
    using assms by (simp add: split_whitespace_no_ws_word)
  have tr: "trim (''*.'' @ e) = ''*.'' @ e"
    using assms(3) by (simp add: trim_no_ws no_ws_def list_all_iff is_whitespace_def)
  have np: "\<not> prefix ''*.'' e" using assms(2) by (auto simp: prefix_def)
  have st: "trim_start_matches ''*.'' (''*.'' @ e) = e"
    using np by (simp add: trim_start_matches.simps [of "''*.''"] trim_start_matches_no_prefix)
  have dw: "trim_start_matches_char CHR ''.'' e = e"
    using assms(1,2) by (cases e) (auto simp: trim_start_matches_char_def)
  show ?thesis using ws tr st dw by (simp add: parse_skip_tokens_def)
qed

lemma file_skipped_single_iff:
  "t \<noteq> [] \<Longrightarrow> file_skipped [to_ascii_lowercase t] name \<longleftrightarrow>
     (\<exists>x. rust_extension name = Some x \<and> eq_ignore_ascii_case x t)"
  by (auto simp: file_skipped_def file_ext_lower_def eq_ignore_ascii_case_iff split: option.splits)

lemma add_skip_file_ext_label:
  "label_skip_files (add_skip_file_ext st) = label_skip_files st \<or>
   (let ext = trim (input_skip_file_ext st) in ext \<noteq> [] \<and>
      \<not> list_ex (\<lambda>e. eq_ignore_ascii_case e (''*.'' @ ext)) (split_whitespace (label_skip_files st)) \<and>
      label_skip_files (add_skip_file_ext st) =
        (if label_skip_files st = [] then ''*.'' @ ext else label_skip_files st @ CHR '' '' # ''*.'' @ ext))"
  by (auto simp: add_skip_file_ext_def Let_def)

section \<open>Properties\<close>

text \<open>C14: Adding an extension that is already present up to ASCII case leaves the
  extension label unchanged and logs one duplicate warning; in particular adding the same
  extension twice, in any case, changes the label only once.\<close>

theorem add_skip_file_ext_twice:
  assumes "trim x \<noteq> []" and "no_ws (trim x)" and "eq_ignore_ascii_case (trim x) (trim y)"
  shows "label_skip_files (add_skip_file_ext
            ((add_skip_file_ext (st\<lparr>input_skip_file_ext := x\<rparr>))\<lparr>input_skip_file_ext := y\<rparr>))
           = label_skip_files (add_skip_file_ext (st\<lparr>input_skip_file_ext := x\<rparr>))
         \<and> logs (add_skip_file_ext
            ((add_skip_file_ext (st\<lparr>input_skip_file_ext := x\<rparr>))\<lparr>input_skip_file_ext := y\<rparr>))
           = logs (add_skip_file_ext (st\<lparr>input_skip_file_ext := x\<rparr>)) @ [LDuplicateExtension]"
proof -
  let ?st1 = "add_skip_file_ext (st\<lparr>input_skip_file_ext := x\<rparr>)"
  have "list_ex (\<lambda>e. eq_ignore_ascii_case e (''*.'' @ trim y)) (split_whitespace (label_skip_files ?st1))"
    using add_skip_file_ext_present [OF assms(1,2)] assms(3)
    by (blast intro: list_ex_eq_ignore_trans eq_ignore_ascii_case_append_left)
  moreover have "trim y \<noteq> []" using assms(1,3) eq_ignore_ascii_case_Nil_iff by blast
  ultimately show ?thesis by (simp add: add_skip_file_ext_def [of "?st1\<lparr>input_skip_file_ext := y\<rparr>"] Let_def)
qed

theorem add_skip_file_ext_twice_witness:
  "trim ''log'' \<noteq> [] \<and> no_ws (trim ''log'') \<and> eq_ignore_ascii_case (trim ''log'') (trim '' LOG'') \<and>
   label_skip_files (add_skip_file_ext
     ((add_skip_file_ext ((app_init None 0)\<lparr>input_skip_file_ext := ''log''\<rparr>))\<lparr>input_skip_file_ext := '' LOG''\<rparr>))
   = label_skip_files (add_skip_file_ext ((app_init None 0)\<lparr>input_skip_file_ext := ''log''\<rparr>))"
proof -
  have h: "trim ''log'' \<noteq> []" "no_ws (trim ''log'')" "eq_ignore_ascii_case (trim ''log'') (trim '' LOG'')"
    by (simp_all add: rust_simps no_ws_def eq_ignore_ascii_case_def)
  show ?thesis using h add_skip_file_ext_twice [OF h, of "app_init None 0"] by simp
qed

text \<open>C15: Adding a folder name that is already present up to ASCII case leaves the folder
  label unchanged and logs one duplicate warning.\<close>

theorem add_skip_folder_twice:
  assumes "trim x \<noteq> []" and "no_ws (trim x)" and "eq_ignore_ascii_case (trim x) (trim y)"
  shows "label_skip_folders (add_skip_folder
            ((add_skip_folder (st\<lparr>input_skip_folder := x\<rparr>))\<lparr>input_skip_folder := y\<rparr>))
           = label_skip_folders (add_skip_folder (st\<lparr>input_skip_folder := x\<rparr>))
         \<and> logs (add_skip_folder
            ((add_skip_folder (st\<lparr>input_skip_folder := x\<rparr>))\<lparr>input_skip_folder := y\<rparr>))
           = logs (add_skip_folder (st\<lparr>input_skip_folder := x\<rparr>)) @ [LDuplicateFolder]"
proof -
  let ?st1 = "add_skip_folder (st\<lparr>input_skip_folder := x\<rparr>)"
  have "list_ex (\<lambda>e. eq_ignore_ascii_case e (trim y)) (split_whitespace (label_skip_folders ?st1))"
    using add_skip_folder_present [OF assms(1,2)] assms(3) by (blast intro: list_ex_eq_ignore_trans)
  moreover have "trim y \<noteq> []" using assms(1,3) eq_ignore_ascii_case_Nil_iff by blast
  ultimately show ?thesis by (simp add: add_skip_folder_def [of "?st1\<lparr>input_skip_folder := y\<rparr>"] Let_def)
qed

theorem add_skip_folder_twice_witness:
  "trim ''node_modules'' \<noteq> [] \<and> no_ws (trim ''node_modules'') \<and>
   eq_ignore_ascii_case (trim ''node_modules'') (trim ''Node_Modules'') \<and>
   label_skip_folders (add_skip_folder
     ((add_skip_folder ((app_init None 0)\<lparr>input_skip_folder := ''node_modules''\<rparr>))
        \<lparr>input_skip_folder := ''Node_Modules''\<rparr>))
   = label_skip_folders (add_skip_folder ((app_init None 0)\<lparr>input_skip_folder := ''node_modules''\<rparr>))"
proof -
  have h: "trim ''node_modules'' \<noteq> []" "no_ws (trim ''node_modules'')"
    "eq_ignore_ascii_case (trim ''node_modules'') (trim ''Node_Modules'')"
    by (simp_all add: rust_simps no_ws_def eq_ignore_ascii_case_def)
  show ?thesis using h add_skip_folder_twice [OF h, of "app_init None 0"] by simp
qed

text \<open>C25: When the typed extension has no inner whitespace, adding it keeps the words of the
  extension label distinct up to ASCII case.\<close>

theorem add_skip_file_ext_label_wf:
  assumes "label_wf (label_skip_files st)" and "no_ws (trim (input_skip_file_ext st))"
  shows "label_wf (label_skip_files (add_skip_file_ext st))"
proof -
  let ?ext = "trim (input_skip_file_ext st)"
  have "?ext \<noteq> [] \<Longrightarrow> ''*.'' @ ?ext \<noteq> [] \<and> no_ws (''*.'' @ ?ext)" using assms(2) by simp
  then show ?thesis
    using assms(1) add_skip_file_ext_label [of st] label_wf_snoc [of "''*.'' @ ?ext" "label_skip_files st"]
    by (auto simp: Let_def)
qed

theorem add_skip_file_ext_label_wf_witness:
  "label_wf (label_skip_files ((app_init None 0)\<lparr>label_skip_files := ''*.log'', input_skip_file_ext := ''TMP''\<rparr>))
   \<and> no_ws (trim (input_skip_file_ext ((app_init None 0)\<lparr>label_skip_files := ''*.log'', input_skip_file_ext := ''TMP''\<rparr>)))
   \<and> label_wf (label_skip_files (add_skip_file_ext
         ((app_init None 0)\<lparr>label_skip_files := ''*.log'', input_skip_file_ext := ''TMP''\<rparr>)))"
proof -
  have h: "label_wf (label_skip_files ((app_init None 0)\<lparr>label_skip_files := ''*.log'', input_skip_file_ext := ''TMP''\<rparr>))"
    "no_ws (trim (input_skip_file_ext ((app_init None 0)\<lparr>label_skip_files := ''*.log'', input_skip_file_ext := ''TMP''\<rparr>)))"
    by (simp_all add: label_wf_def rust_simps no_ws_def)
  show ?thesis using h add_skip_file_ext_label_wf [OF h] by simp
qed

text \<open>C29: The duplicate check compares the whole typed text, with its inner spaces, against
  single words of the label, so no word ever equals it: a typed text \<open>a w'\<close> whose last
  word \<open>w'\<close> is already in the label (up to ASCII case) passes the check, is appended, and
  leaves that word twice in the label.\<close>

theorem add_skip_file_ext_inner_space_duplicates:
  assumes "w \<in> set (split_whitespace (label_skip_files st))"
    and "trim (input_skip_file_ext st) = a @ CHR '' '' # w'"
    and "a \<noteq> []" and "no_ws a" and "no_ws w'" and "eq_ignore_ascii_case w w'"
  shows "label_skip_files (add_skip_file_ext st) = label_skip_files st @ CHR '' '' # ''*.'' @ a @ CHR '' '' # w'
         \<and> \<not> label_wf (label_skip_files (add_skip_file_ext st))"
proof -
  let ?l = "label_skip_files st"
  have ne: "?l \<noteq> []" using assms(1) by auto
  have w'ne: "w' \<noteq> []" using assms(6) split_whitespace_nonempty [OF assms(1)] eq_ignore_ascii_case_Nil_iff by blast
  have nd: "\<not> list_ex (\<lambda>e. eq_ignore_ascii_case e (''*.'' @ a @ CHR '' '' # w')) (split_whitespace ?l)"
  proof
    assume "list_ex (\<lambda>e. eq_ignore_ascii_case e (''*.'' @ a @ CHR '' '' # w')) (split_whitespace ?l)"
    then obtain e where e: "e \<in> set (split_whitespace ?l)" "eq_ignore_ascii_case e (''*.'' @ a @ CHR '' '' # w')"
      by (auto simp: list_ex_iff)
    have "no_ws e" using split_whitespace_no_ws [OF e(1)] by (auto simp: no_ws_def list_all_iff)
    then show False using eq_ignore_ascii_case_space e(2) by simp
  qed
  have lab: "label_skip_files (add_skip_file_ext st) = ?l @ CHR '' '' # ''*.'' @ a @ CHR '' '' # w'"
    using assms(2) nd ne by (simp add: add_skip_file_ext_def Let_def)
  have sw: "split_whitespace (?l @ CHR '' '' # ''*.'' @ a @ CHR '' '' # w') = split_whitespace ?l @ [''*.'' @ a, w']"
    using split_whitespace_append_space [of ?l] split_whitespace_append_space [of "''*.'' @ a" w']
      assms(3-5) w'ne by (simp add: split_whitespace_no_ws_word)
  have "to_ascii_lowercase w' \<in> set (map to_ascii_lowercase (split_whitespace ?l))"
    using assms(1,6) by (auto simp: eq_ignore_ascii_case_iff intro!: image_eqI [where x = w])
  then show ?thesis using lab sw by (simp add: label_wf_def)
qed

theorem add_skip_file_ext_inner_space_duplicates_witness:
  "label_skip_files (add_skip_file_ext
      ((app_init None 0)\<lparr>label_skip_files := ''*.log'', input_skip_file_ext := ''x *.LOG''\<rparr>)) = ''*.log *.x *.LOG''
   \<and> \<not> label_wf ''*.log *.x *.LOG''"
proof -
  let ?st = "(app_init None 0)\<lparr>label_skip_files := ''*.log'', input_skip_file_ext := ''x *.LOG''\<rparr>"
  have h: "''*.log'' \<in> set (split_whitespace (label_skip_files ?st))"
    "trim (input_skip_file_ext ?st) = ''x'' @ CHR '' '' # ''*.LOG''"
    "''x'' \<noteq> []" "no_ws ''x''" "no_ws ''*.LOG''" "eq_ignore_ascii_case ''*.log'' ''*.LOG''"
    by (simp_all add: rust_simps no_ws_def eq_ignore_ascii_case_def)
  note r = add_skip_file_ext_inner_space_duplicates [OF h]
  then have "label_skip_files (add_skip_file_ext ?st) = ''*.log *.x *.LOG''" by simp
  with r show ?thesis by simp
qed

text \<open>C16: An extension token added as \<open>*.e\<close> (with \<open>e\<close> free of dots and whitespace)
  skips exactly the files whose \<open>Path::extension\<close> equals \<open>e\<close> up to ASCII case: whole-token,
  case-insensitive matching, and never a file without an extension.\<close>

theorem file_skipped_token_iff:
  assumes "e \<noteq> []" and "CHR ''.'' \<notin> set e" and "no_ws e"
  shows "file_skipped (parse_skip_tokens (''*.'' @ e)) name \<longleftrightarrow>
           (\<exists>x. rust_extension name = Some x \<and> eq_ignore_ascii_case x e)"
  using parse_skip_tokens_star_word [OF assms] file_skipped_single_iff [OF assms(1)] by simp

theorem file_skipped_token_iff_witness:
  "file_skipped (parse_skip_tokens ''*.log'') ''app.LOG'' \<and>
   \<not> file_skipped (parse_skip_tokens ''*.log'') ''applog'' \<and>
   \<not> file_skipped (parse_skip_tokens ''*.log'') ''a.log.txt''"
proof -
  have h: "''log'' \<noteq> []" "CHR ''.'' \<notin> set ''log''" "no_ws ''log''"
    by (simp_all add: no_ws_def is_whitespace_def)
  have "\<And>n. file_skipped (parse_skip_tokens (''*.'' @ ''log'')) n \<longleftrightarrow>
           (\<exists>x. rust_extension n = Some x \<and> eq_ignore_ascii_case x ''log'')"
    by (rule file_skipped_token_iff [OF h])
  then show ?thesis by (simp add: rust_extension_def eq_ignore_ascii_case_def ascii_lower_def is_ascii_uppercase_def)
qed

end
