(* ===== verification/Copy.thy ===== *)
theory Copy
  imports SkipList
begin

text \<open>
  The copy engine, \<open>copy_recursive\<close> of \<open>main.rs\<close>. It makes sure the destination
  directory exists, lists the source directory, and for each entry either skips it (a
  folder whose name is a skip folder, a file whose extension is a skip extension), recurses
  into it (a directory), or copies it (a file): a failed file copy is logged on the channel
  and the loop goes on, a failure to create a directory or to list one is returned with
  \<open>?\<close> and ends every enclosing loop.

  \<^item> \<open>copy_recursive\<close>/\<open>copy_entries\<close> are the function and its \<open>for\<close> loop as written:
    they read the filesystem as it is at each step, so a destination inside the source is
    seen by the listing; the recursion is bounded by fuel, \<open>None\<close> meaning the fuel ran out.
  \<^item> \<open>copy_tree\<close>/\<open>copy_tree_entries\<close> copy a snapshot of the source tree; they are
    structurally recursive and equal the former when source and destination are parallel
    paths (neither inside the other) and the fuel exceeds the height of the source.
  \<^item> \<open>mirror_tree\<close> is the abstract result: the source tree without the skipped entries,
    the unreadable files and the entries that are neither files nor directories.
\<close>

type_synonym copy_result = "(io_error + unit) \<times> node \<times> app_msg list"

section \<open>The copy as written\<close>

fun copy_recursive ::
  "nat \<Rightarrow> string list \<Rightarrow> string list \<Rightarrow> path \<Rightarrow> path \<Rightarrow> node \<Rightarrow> copy_result option"
and copy_entries ::
  "nat \<Rightarrow> string list \<Rightarrow> string list \<Rightarrow> path \<Rightarrow> path \<Rightarrow> (string \<times> node) list \<Rightarrow> node
     \<Rightarrow> copy_result option" where
  "copy_recursive 0 exts fols src dst fs = None"
| "copy_recursive (Suc k) exts fols src dst fs =
     (case create_dir_all dst fs of
        Inl e \<Rightarrow> Some (Inl e, fs, [])
      | Inr fs1 \<Rightarrow>
          (case read_dir fs1 src of
             Inl e \<Rightarrow> Some (Inl e, fs1, [])
           | Inr es \<Rightarrow> copy_entries k exts fols src dst es fs1))"
| "copy_entries k exts fols src dst [] fs = Some (Inr (), fs, [])"
| "copy_entries k exts fols src dst ((name, _) # es) fs =
     (case lookup fs (src @ [name]) of
        Some (Dir ces r) \<Rightarrow>
          (if folder_skipped fols name then copy_entries k exts fols src dst es fs
           else (case copy_recursive k exts fols (src @ [name]) (dst @ [name]) fs of
                   None \<Rightarrow> None
                 | Some (Inl e, fs', m) \<Rightarrow> Some (Inl e, fs', m)
                 | Some (Inr _, fs', m) \<Rightarrow>
                     (case copy_entries k exts fols src dst es fs' of
                        None \<Rightarrow> None
                      | Some (res, fs'', m') \<Rightarrow> Some (res, fs'', m @ m'))))
      | Some (File c rd) \<Rightarrow>
          (if file_skipped exts name then copy_entries k exts fols src dst es fs
           else (case fs_copy (File c rd) (dst @ [name]) fs of
                   Inl e \<Rightarrow>
                     (case copy_entries k exts fols src dst es fs of
                        None \<Rightarrow> None
                      | Some (res, fs', m) \<Rightarrow>
                          Some (res, fs', Log (LFileCopyFailed (src @ [name]) (dst @ [name]) e) # m))
                 | Inr fs' \<Rightarrow> copy_entries k exts fols src dst es fs'))
      | _ \<Rightarrow> copy_entries k exts fols src dst es fs)"

section \<open>The copy of a snapshot\<close>

fun copy_tree ::
  "string list \<Rightarrow> string list \<Rightarrow> path \<Rightarrow> node \<Rightarrow> path \<Rightarrow> node \<Rightarrow> copy_result"
and copy_tree_entries ::
  "string list \<Rightarrow> string list \<Rightarrow> path \<Rightarrow> (string \<times> node) list \<Rightarrow> path \<Rightarrow> node \<Rightarrow> copy_result" where
  "copy_tree exts fols src n dst fs =
     (case create_dir_all dst fs of
        Inl e \<Rightarrow> (Inl e, fs, [])
      | Inr fs1 \<Rightarrow>
          (case n of
             Dir es True \<Rightarrow> copy_tree_entries exts fols src es dst fs1
           | Dir es False \<Rightarrow> (Inl PermissionDenied, fs1, [])
           | _ \<Rightarrow> (Inl NotADirectory, fs1, [])))"
| "copy_tree_entries exts fols src [] dst fs = (Inr (), fs, [])"
| "copy_tree_entries exts fols src ((name, c) # es) dst fs =
     (case c of
        Dir ces r \<Rightarrow>
          (if folder_skipped fols name then copy_tree_entries exts fols src es dst fs
           else (case copy_tree exts fols (src @ [name]) c (dst @ [name]) fs of
                   (Inl e, fs', m) \<Rightarrow> (Inl e, fs', m)
                 | (Inr _, fs', m) \<Rightarrow>
                     (case copy_tree_entries exts fols src es dst fs' of
                        (res, fs'', m') \<Rightarrow> (res, fs'', m @ m'))))
      | File x rd \<Rightarrow>
          (if file_skipped exts name then copy_tree_entries exts fols src es dst fs
           else (case fs_copy c (dst @ [name]) fs of
                   Inl e \<Rightarrow>
                     (case copy_tree_entries exts fols src es dst fs of
                        (res, fs', m) \<Rightarrow>
                          (res, fs', Log (LFileCopyFailed (src @ [name]) (dst @ [name]) e) # m))
                 | Inr fs' \<Rightarrow> copy_tree_entries exts fols src es dst fs'))
      | Other \<Rightarrow> copy_tree_entries exts fols src es dst fs)"

section \<open>The abstract result\<close>

fun mirror_tree :: "string list \<Rightarrow> string list \<Rightarrow> node \<Rightarrow> node"
and mirror_entries :: "string list \<Rightarrow> string list \<Rightarrow> (string \<times> node) list \<Rightarrow> (string \<times> node) list" where
  "mirror_tree exts fols (Dir es r) = Dir (mirror_entries exts fols es) True"
| "mirror_tree exts fols n = n"
| "mirror_entries exts fols [] = []"
| "mirror_entries exts fols ((name, c) # es) =
     (case c of
        Dir ces r \<Rightarrow>
          (if folder_skipped fols name then mirror_entries exts fols es
           else (name, mirror_tree exts fols c) # mirror_entries exts fols es)
      | File x rd \<Rightarrow>
          (if file_skipped exts name \<or> \<not> rd then mirror_entries exts fols es
           else (name, File x True) # mirror_entries exts fols es)
      | Other \<Rightarrow> mirror_entries exts fols es)"

text \<open>The warnings a copy of the snapshot sends: one per unreadable file it tries.\<close>

fun mirror_warnings :: "string list \<Rightarrow> string list \<Rightarrow> path \<Rightarrow> path \<Rightarrow> node \<Rightarrow> app_msg list"
and mirror_entry_warnings ::
  "string list \<Rightarrow> string list \<Rightarrow> path \<Rightarrow> path \<Rightarrow> (string \<times> node) list \<Rightarrow> app_msg list" where
  "mirror_warnings exts fols src dst (Dir es r) = mirror_entry_warnings exts fols src dst es"
| "mirror_warnings exts fols src dst n = []"
| "mirror_entry_warnings exts fols src dst [] = []"
| "mirror_entry_warnings exts fols src dst ((name, c) # es) =
     (case c of
        Dir ces r \<Rightarrow>
          (if folder_skipped fols name then []
           else mirror_warnings exts fols (src @ [name]) (dst @ [name]) c)
      | File x rd \<Rightarrow>
          (if file_skipped exts name \<or> rd then []
           else [Log (LFileCopyFailed (src @ [name]) (dst @ [name]) PermissionDenied)])
      | Other \<Rightarrow> []) @ mirror_entry_warnings exts fols src dst es"

text \<open>Every directory the copy descends into can be listed.\<close>

fun dirs_listable :: "string list \<Rightarrow> node \<Rightarrow> bool"
and entries_listable :: "string list \<Rightarrow> (string \<times> node) list \<Rightarrow> bool" where
  "dirs_listable fols (Dir es r) \<longleftrightarrow> r \<and> entries_listable fols es"
| "dirs_listable fols n \<longleftrightarrow> False"
| "entries_listable fols [] \<longleftrightarrow> True"
| "entries_listable fols ((name, c) # es) \<longleftrightarrow>
     (case c of Dir ces r \<Rightarrow> folder_skipped fols name \<or> dirs_listable fols c | _ \<Rightarrow> True)
     \<and> entries_listable fols es"

fun height :: "node \<Rightarrow> nat"
and height_entries :: "(string \<times> node) list \<Rightarrow> nat" where
  "height (Dir es r) = Suc (height_entries es)"
| "height n = 0"
| "height_entries [] = 0"
| "height_entries ((x, c) # es) = max (height c) (height_entries es)"

text \<open>The entries of a listing still found, unchanged, below the source: the loop
  invariant of the copy of a snapshot.\<close>

definition entries_at :: "node \<Rightarrow> path \<Rightarrow> nat \<Rightarrow> (string \<times> node) list \<Rightarrow> bool" where
  "entries_at fs src k es \<longleftrightarrow>
     list_all (\<lambda>(x, c). lookup fs (src @ [x]) = Some c \<and> names_distinct c \<and> height c < k) es"

definition spec_example_fs :: node where
  "spec_example_fs =
     Dir [(''src'', Dir [(''a.txt'', File ''A'' True), (''b.log'', File ''B'' True),
            (''sub'', Dir [(''c.tmp'', File ''C'' True), (''d.txt'', File ''D'' True)] True)] True)] True"

section \<open>Lemmas\<close>

subsection \<open>Frame: the copy writes below the destination only\<close>

lemma parallel_snoc: "p \<parallel> q \<Longrightarrow> p @ [x] \<parallel> q"
  using parallel_append [of p q "[x]" "[]"] by simp

lemma fs_copy_frame:
  "fs_copy src to fs = Inr fs' \<Longrightarrow> to \<parallel> q \<Longrightarrow> lookup fs' q = lookup fs q"
  by (auto simp: fs_copy_def split: node.splits bool.splits if_splits intro: modify_at_frame)

lemma copy_tree_frame:
  "copy_tree exts fols src n dst fs = (res, fs', m) \<Longrightarrow> dst \<parallel> q \<Longrightarrow> lookup fs' q = lookup fs q"
  "copy_tree_entries exts fols src es dst fs = (res, fs', m) \<Longrightarrow> dst \<parallel> q \<Longrightarrow> lookup fs' q = lookup fs q"
proof (induction exts fols src n dst fs and exts fols src es dst fs
    arbitrary: res fs' m q and res fs' m q rule: copy_tree_copy_tree_entries.induct)
  case (1 exts fols src n dst fs)
  then show ?case
    by (auto split: sum.splits node.splits bool.splits dest: create_dir_all_frame)
next
  case (3 exts fols src name c es dst fs)
  have par: "dst @ [name] \<parallel> q" using "3.prems"(2) by (rule parallel_snoc)
  show ?case
  proof (cases c)
    case (Dir ces r)
    with 3 par show ?thesis
      by (auto split: if_splits sum.splits prod.splits)
  next
    case (File x rd)
    with 3 par show ?thesis
      by (auto split: if_splits sum.splits prod.splits dest: fs_copy_frame)
  next
    case Other
    with 3 show ?thesis by auto
  qed
qed auto

subsection \<open>Structural failures abort the copy\<close>

lemma copy_tree_unlistable:
  "\<not> dirs_listable fols n \<Longrightarrow> isl (fst (copy_tree exts fols src n dst fs))"
  "\<not> entries_listable fols es \<Longrightarrow> isl (fst (copy_tree_entries exts fols src es dst fs))"
proof (induction exts fols src n dst fs and exts fols src es dst fs
    rule: copy_tree_copy_tree_entries.induct)
  case (1 exts fols src n dst fs)
  then show ?case
    by (auto split: sum.splits node.splits bool.splits)
next
  case (3 exts fols src name c es dst fs)
  show ?case
  proof (cases c)
    case (Dir ces r)
    show ?thesis
    proof (cases "folder_skipped fols name")
      case True
      with "3.prems" Dir have "\<not> entries_listable fols es" by simp
      with "3.IH"(4) Dir True show ?thesis by simp
    next
      case False
      obtain r1 fs1 m1 where ct: "copy_tree exts fols (src @ [name]) c (dst @ [name]) fs = (r1, fs1, m1)"
        by (metis prod_cases3)
      show ?thesis
      proof (cases r1)
        case (Inl e)
        with ct Dir False show ?thesis by (simp del: copy_tree.simps)
      next
        case (Inr u)
        with ct "3.IH"(5) [OF Dir False] have "dirs_listable fols c" by fastforce
        with "3.prems" Dir False have "\<not> entries_listable fols es" by simp
        with "3.IH"(6) [OF Dir False ct [symmetric] Inr refl]
        have "isl (fst (copy_tree_entries exts fols src es dst fs1))" by simp
        with ct Dir False Inr show ?thesis
          by (cases "copy_tree_entries exts fols src es dst fs1") (simp del: copy_tree.simps)
      qed
    qed
  next
    case (File x rd)
    with 3 show ?thesis
      by (auto split: if_splits sum.splits prod.splits)
  next
    case Other
    with 3 show ?thesis by auto
  qed
qed auto

subsection \<open>A copy into a fresh directory produces the mirror\<close>

lemma set_child_snoc_new:
  "map_of acc x = None \<Longrightarrow> set_child x m (acc @ [(x, n)]) = acc @ [(x, m)]"
  by (metis set_child_new set_child_set_child)

lemma lookup_snoc_new:
  "map_of acc x = None \<Longrightarrow> map_of (acc @ [(x, n)]) x = Some n"
  by (simp add: map_add_def)

lemma create_dir_all_fresh_child:
  assumes "lookup fs p = Some (Dir acc True)" and "map_of acc x = None"
  shows "create_dir_all (p @ [x]) fs = Inr (replace_at p (Dir (acc @ [(x, Dir [] True)]) True) fs)"
  using create_dir_all_local [OF assms(1), of "[x]"] assms(2) by (simp add: set_child_new)

lemma fs_copy_fresh_child:
  assumes "lookup fs p = Some (Dir acc True)" and "map_of acc x = None"
  shows "fs_copy (File c True) (p @ [x]) fs = Inr (replace_at p (Dir (acc @ [(x, File c True)]) True) fs)"
  using modify_at_local [OF assms(1), of "[]" x "write_entry c"] assms(2)
  by (simp add: fs_copy_def write_entry_def set_child_new)

lemma replace_at_child:
  assumes "lookup fs p = Some (Dir acc True)" and "map_of acc x = None"
  shows "replace_at (p @ [x]) m (replace_at p (Dir (acc @ [(x, n)]) True) fs)
           = replace_at p (Dir (acc @ [(x, m)]) True) fs"
proof -
  have "lookup (replace_at p (Dir (acc @ [(x, n)]) True) fs) p = Some (Dir (acc @ [(x, n)]) True)"
    using lookup_replace_at_same [of fs p _ "[]"] assms(1) by simp
  then show ?thesis
    using assms(2) by (simp add: replace_at_append map_add_def set_child_snoc_new)
qed

lemma lookup_replace_at_child:
  assumes "lookup fs p = Some d" and "map_of acc x = None"
  shows "lookup (replace_at p (Dir (acc @ [(x, n)]) True) fs) (p @ [x]) = Some n"
  using lookup_replace_at_same [of fs p _ "[x]"] assms by (simp add: map_add_def)

lemma lookup_replace_at_here: "lookup fs p = Some d \<Longrightarrow> lookup (replace_at p d' fs) p = Some d'"
  using lookup_replace_at_same [of fs p d' "[]"] by simp

lemma copy_tree_fresh:
  "dst \<noteq> [] \<Longrightarrow> lookup fs (butlast dst) = Some (Dir acc True) \<Longrightarrow> map_of acc (last dst) = None
   \<Longrightarrow> dirs_listable fols n \<Longrightarrow> names_distinct n
   \<Longrightarrow> copy_tree exts fols src n dst fs =
        (Inr (), replace_at (butlast dst) (Dir (acc @ [(last dst, mirror_tree exts fols n)]) True) fs,
         mirror_warnings exts fols src dst n)"
  "lookup fs dst = Some (Dir acc True) \<Longrightarrow> entries_listable fols es \<Longrightarrow> entries_distinct es
   \<Longrightarrow> (\<forall>x \<in> set (map fst es). map_of acc x = None)
   \<Longrightarrow> copy_tree_entries exts fols src es dst fs =
        (Inr (), replace_at dst (Dir (acc @ mirror_entries exts fols es) True) fs,
         mirror_entry_warnings exts fols src dst es)"
proof (induction exts fols src n dst fs and exts fols src es dst fs
    arbitrary: acc and acc rule: copy_tree_copy_tree_entries.induct)
  case (1 exts fols src n dst fs)
  let ?p = "butlast dst" and ?x = "last dst"
  have dst: "dst = ?p @ [?x]" using "1.prems"(1) by simp
  obtain es where n: "n = Dir es True" and el: "entries_listable fols es" and ed: "entries_distinct es"
    using "1.prems"(4,5) by (cases n) auto
  let ?fs1 = "replace_at ?p (Dir (acc @ [(?x, Dir [] True)]) True) fs"
  have cd: "create_dir_all dst fs = Inr ?fs1"
    using create_dir_all_fresh_child [OF "1.prems"(2,3)] dst by metis
  have "lookup ?fs1 dst = Some (Dir [] True)"
    using lookup_replace_at_child [OF "1.prems"(2,3)] dst by metis
  with "1.IH" [OF cd n refl] el ed
  have "copy_tree_entries exts fols src es dst ?fs1 =
          (Inr (), replace_at dst (Dir (mirror_entries exts fols es) True) ?fs1,
           mirror_entry_warnings exts fols src dst es)"
    by simp
  moreover have "replace_at dst (Dir (mirror_entries exts fols es) True) ?fs1 =
      replace_at ?p (Dir (acc @ [(?x, Dir (mirror_entries exts fols es) True)]) True) fs"
    using replace_at_child [OF "1.prems"(2,3)] dst by metis
  ultimately show ?case using cd n by simp
next
  case (2 exts fols src dst fs)
  then show ?case using replace_at_lookup_self [of fs dst] by simp
next
  case (3 exts fols src name c es dst fs)
  from "3.prems"(3) have nm: "name \<notin> set (map fst es)" and dc: "names_distinct c"
    and de: "entries_distinct es" by simp_all
  have new: "map_of acc name = None" using "3.prems"(4) by simp
  have keys: "\<forall>x \<in> set (map fst es). map_of acc x = None" using "3.prems"(4) by simp
  have keys': "\<forall>x \<in> set (map fst es). map_of (acc @ [(name, m)]) x = None" for m
    using keys nm by (auto simp: map_add_def)
  show ?case
  proof (cases c)
    case (Dir ces r)
    show ?thesis
    proof (cases "folder_skipped fols name")
      case True
      with "3.IH"(4) [OF Dir True] "3.prems"(1,2) Dir de keys show ?thesis by simp
    next
      case False
      have dl: "dirs_listable fols c" and el: "entries_listable fols es"
        using "3.prems"(2) Dir False by simp_all
      let ?fs1 = "replace_at dst (Dir (acc @ [(name, mirror_tree exts fols c)]) True) fs"
      have ct: "copy_tree exts fols (src @ [name]) c (dst @ [name]) fs =
                  (Inr (), ?fs1, mirror_warnings exts fols (src @ [name]) (dst @ [name]) c)"
        using "3.IH"(5) [OF Dir False] "3.prems"(1) new dl dc by simp
      have "lookup ?fs1 dst = Some (Dir (acc @ [(name, mirror_tree exts fols c)]) True)"
        using lookup_replace_at_here [OF "3.prems"(1)] .
      with "3.IH"(6) [OF Dir False ct [symmetric] refl refl] el de keys'
      have "copy_tree_entries exts fols src es dst ?fs1 =
              (Inr (), replace_at dst (Dir ((acc @ [(name, mirror_tree exts fols c)]) @
                 mirror_entries exts fols es) True) ?fs1, mirror_entry_warnings exts fols src dst es)"
        by simp
      with ct Dir False show ?thesis by (simp del: copy_tree.simps)
    qed
  next
    case (File x rd)
    show ?thesis
    proof (cases "file_skipped exts name")
      case True
      with "3.IH"(1) [OF File True] "3.prems"(1,2) File de keys show ?thesis by simp
    next
      case False
      have el: "entries_listable fols es" using "3.prems"(2) File by simp
      show ?thesis
      proof (cases rd)
        case True
        let ?fs1 = "replace_at dst (Dir (acc @ [(name, File x True)]) True) fs"
        have cp: "fs_copy c (dst @ [name]) fs = Inr ?fs1"
          using fs_copy_fresh_child [OF "3.prems"(1) new] File True by simp
        have "lookup ?fs1 dst = Some (Dir (acc @ [(name, File x True)]) True)"
          using lookup_replace_at_here [OF "3.prems"(1)] .
        with "3.IH"(3) [OF File False cp] el de keys'
        have "copy_tree_entries exts fols src es dst ?fs1 =
                (Inr (), replace_at dst (Dir ((acc @ [(name, File x True)]) @
                   mirror_entries exts fols es) True) ?fs1, mirror_entry_warnings exts fols src dst es)"
          by simp
        with cp File False True show ?thesis by simp
      next
        case rd: False
        have cp: "fs_copy c (dst @ [name]) fs = Inl PermissionDenied"
          using File rd by (simp add: fs_copy_def)
        with "3.IH"(2) [OF File False cp] "3.prems"(1) el de keys File False rd show ?thesis
          by simp
      qed
    qed
  next
    case Other
    with "3.IH"(7) "3.prems"(1,2) de keys show ?thesis by simp
  qed
qed

lemma copy_tree_into_empty:
  assumes "lookup fs dst = Some (Dir [] True)" and "dirs_listable fols n" and "names_distinct n"
  shows "copy_tree exts fols src n dst fs =
           (Inr (), replace_at dst (mirror_tree exts fols n) fs, mirror_warnings exts fols src dst n)"
proof -
  obtain es where n: "n = Dir es True" and el: "entries_listable fols es" and ed: "entries_distinct es"
    using assms(2,3) by (cases n) auto
  have "create_dir_all dst fs = Inr fs" using create_dir_all_existing [OF assms(1)] by simp
  with copy_tree_fresh(2) [OF assms(1) el ed] n show ?thesis by simp
qed

subsection \<open>The copy as written equals the copy of a snapshot\<close>

lemma height_entries_member: "(x, c) \<in> set es \<Longrightarrow> height c \<le> height_entries es"
proof (induction es)
  case (Cons a es)
  then show ?case by (cases a) auto
qed simp

lemma entries_at_Cons [simp]:
  "entries_at fs src k ((x, c) # es) \<longleftrightarrow>
     lookup fs (src @ [x]) = Some c \<and> names_distinct c \<and> height c < k \<and> entries_at fs src k es"
  and entries_at_Nil [simp]: "entries_at fs src k []"
  by (simp_all add: entries_at_def)

lemma entries_at_frame:
  "entries_at fs src k es \<Longrightarrow> (\<And>x. lookup fs' (src @ [x]) = lookup fs (src @ [x]))
     \<Longrightarrow> entries_at fs' src k es"
  by (simp add: entries_at_def)

lemma entries_at_listing:
  assumes "lookup fs src = Some (Dir es r)" and "entries_distinct es" and "height_entries es < k"
  shows "entries_at fs src k es"
  unfolding entries_at_def list_all_iff
proof (intro ballI, clarify)
  fix x c assume xc: "(x, c) \<in> set es"
  then have "map_of es x = Some c" and "names_distinct c"
    using entries_distinct_member [OF assms(2)] by simp_all
  moreover have "height c < k" using height_entries_member [OF xc] assms(3) by simp
  ultimately show "lookup fs (src @ [x]) = Some c \<and> names_distinct c \<and> height c < k"
    using assms(1) by (simp add: lookup_append)
qed

lemma copy_recursive_snapshot:
  "src \<parallel> dst \<Longrightarrow> lookup fs src = Some n \<Longrightarrow> names_distinct n \<Longrightarrow> height n < k
   \<Longrightarrow> copy_recursive k exts fols src dst fs = Some (copy_tree exts fols src n dst fs)"
  "src \<parallel> dst \<Longrightarrow> entries_at fs src k es
   \<Longrightarrow> copy_entries k exts fols src dst es fs = Some (copy_tree_entries exts fols src es dst fs)"
proof (induction k exts fols src dst fs and k exts fols src dst es fs
    arbitrary: n and rule: copy_recursive_copy_entries.induct)
  case (1 exts fols src dst fs)
  then show ?case by simp
next
  case (2 k exts fols src dst fs)
  show ?case
  proof (cases "create_dir_all dst fs")
    case (Inl e)
    then show ?thesis by simp
  next
    case (Inr fs1)
    have lk: "lookup fs1 src = Some n"
      using create_dir_all_frame [OF Inr] "2.prems"(1,2) by (simp add: parallel_commute)
    show ?thesis
    proof (cases "\<exists>es. n = Dir es True")
      case True
      then obtain es where n: "n = Dir es True" by blast
      have rd: "read_dir fs1 src = Inr es" using lk n by (simp add: read_dir_def)
      have "entries_at fs1 src k es"
        using entries_at_listing [of fs1 src es True k] lk n "2.prems"(3,4) by simp
      with "2.IH" [OF Inr rd] "2.prems"(1) Inr rd n show ?thesis by simp
    next
      case False
      with lk Inr show ?thesis
        by (cases n) (auto simp: read_dir_def)
    qed
  qed
next
  case (3 k exts fols src dst fs)
  then show ?case by simp
next
  case (4 k exts fols src dst name c0 es fs)
  obtain c where lk: "lookup fs (src @ [name]) = Some c" and dc: "names_distinct c"
    and hc: "height c < k" and rest: "entries_at fs src k es"
    using "4.prems"(2) by (cases c0) auto
  have c0: "c0 = c" using "4.prems"(2) lk by simp
  have par: "src @ [x] \<parallel> dst @ [name]" for x
    using "4.prems"(1) by (simp add: parallel_append)
  show ?case
  proof (cases c)
    case (Dir ces r)
    show ?thesis
    proof (cases "folder_skipped fols name")
      case True
      with "4.IH"(5) [OF lk Dir True] "4.prems"(1) rest lk Dir c0 show ?thesis by simp
    next
      case False
      have cr: "copy_recursive k exts fols (src @ [name]) (dst @ [name]) fs =
                  Some (copy_tree exts fols (src @ [name]) c (dst @ [name]) fs)"
        using "4.IH"(6) [OF lk Dir False] "4.prems"(1) lk dc hc by (simp add: parallel_append)
      obtain r1 fs1 m1 where ct: "copy_tree exts fols (src @ [name]) c (dst @ [name]) fs = (r1, fs1, m1)"
        by (metis prod_cases3)
      show ?thesis
      proof (cases r1)
        case (Inl e)
        with cr ct lk Dir False c0 show ?thesis by (simp del: copy_tree.simps)
      next
        case (Inr u)
        have "entries_at fs1 src k es"
          using entries_at_frame [OF rest] copy_tree_frame(1) [OF ct] par by (simp add: parallel_commute)
        with "4.IH"(7) [OF lk Dir False cr [unfolded ct] refl Inr refl] "4.prems"(1)
        have "copy_entries k exts fols src dst es fs1 = Some (copy_tree_entries exts fols src es dst fs1)"
          by simp
        with cr ct lk Dir False c0 Inr show ?thesis
          by (cases "copy_tree_entries exts fols src es dst fs1") (simp del: copy_tree.simps)
      qed
    qed
  next
    case (File x rd)
    show ?thesis
    proof (cases "file_skipped exts name")
      case True
      with "4.IH"(2) [OF lk File True] "4.prems"(1) rest lk File c0 show ?thesis by simp
    next
      case False
      show ?thesis
      proof (cases "fs_copy (File x rd) (dst @ [name]) fs")
        case (Inl e)
        with "4.IH"(3) [OF lk File False Inl] "4.prems"(1) rest lk File c0 False show ?thesis
          by (cases "copy_tree_entries exts fols src es dst fs") simp
      next
        case (Inr fs1)
        have "entries_at fs1 src k es"
          using entries_at_frame [OF rest] fs_copy_frame [OF Inr] par by (simp add: parallel_commute)
        with "4.IH"(4) [OF lk File False Inr] "4.prems"(1) lk File c0 False Inr show ?thesis by simp
      qed
    qed
  next
    case Other
    with "4.IH"(8) [OF lk Other] "4.prems"(1) rest lk c0 show ?thesis by simp
  qed
qed

subsection \<open>What the copy keeps\<close>

text \<open>The copy changes the filesystem only by \<open>create_dir_all\<close> and \<open>fs::copy\<close> at paths
  below its destination, so it keeps every property those two keep there.\<close>

lemma copy_recursive_preserves:
  assumes cd: "\<And>d fs fs'. prefix D d \<Longrightarrow> create_dir_all d fs = Inr fs' \<Longrightarrow> P fs \<Longrightarrow> P fs'"
    and cp: "\<And>n d fs fs'. prefix D d \<Longrightarrow> fs_copy n d fs = Inr fs' \<Longrightarrow> P fs \<Longrightarrow> P fs'"
  shows "copy_recursive k exts fols src dst fs = Some (r, fs', m) \<Longrightarrow> prefix D dst \<Longrightarrow> P fs \<Longrightarrow> P fs'"
    and "copy_entries k exts fols src dst es fs = Some (r, fs', m) \<Longrightarrow> prefix D dst \<Longrightarrow> P fs \<Longrightarrow> P fs'"
proof (induction k exts fols src dst fs and k exts fols src dst es fs arbitrary: r fs' m and r fs' m
    rule: copy_recursive_copy_entries.induct)
  case (2 k exts fols src dst fs)
  note ce = "2.prems"(1) and pre = "2.prems"(2) and w = "2.prems"(3)
  show ?case
  proof (cases "create_dir_all dst fs")
    case (Inl e)
    then show ?thesis using ce w by simp
  next
    case (Inr fs1)
    have w1: "P fs1" using cd [OF pre Inr w] .
    show ?thesis
    proof (cases "read_dir fs1 src")
      case (Inl e)
      then show ?thesis using ce Inr w1 by simp
    next
      case (Inr es)
      with ce \<open>create_dir_all dst fs = Inr fs1\<close>
      have "copy_entries k exts fols src dst es fs1 = Some (r, fs', m)" by simp
      from "2.IH" [OF \<open>create_dir_all dst fs = Inr fs1\<close> Inr this pre w1] show ?thesis .
    qed
  qed
next
  case (4 k exts fols src dst name uu es fs)
  note ce = "4.prems"(1) and pre = "4.prems"(2) and w = "4.prems"(3)
  have pre': "prefix D (dst @ [name])" using pre by (rule prefix_prefix)
  show ?case
  proof (cases "lookup fs (src @ [name])")
    case None
    with ce have "copy_entries k exts fols src dst es fs = Some (r, fs', m)" by simp
    from "4.IH"(1) [OF None this pre w] show ?thesis .
  next
    case (Some c)
    show ?thesis
    proof (cases c)
      case (File cs rd)
      show ?thesis
      proof (cases "file_skipped exts name")
        case True
        with ce Some File have "copy_entries k exts fols src dst es fs = Some (r, fs', m)" by simp
        from "4.IH"(2) [OF Some File True this pre w] show ?thesis .
      next
        case False
        show ?thesis
        proof (cases "fs_copy (File cs rd) (dst @ [name]) fs")
          case (Inl e)
          with ce Some File False obtain r0 m0 where "copy_entries k exts fols src dst es fs = Some (r0, fs', m0)"
            by (auto split: option.splits)
          from "4.IH"(3) [OF Some File False Inl this pre w] show ?thesis .
        next
          case (Inr fs1)
          with ce Some File False have "copy_entries k exts fols src dst es fs1 = Some (r, fs', m)" by simp
          from "4.IH"(4) [OF Some File False Inr this pre cp [OF pre' Inr w]] show ?thesis .
        qed
      qed
    next
      case (Dir ces rd)
      show ?thesis
      proof (cases "folder_skipped fols name")
        case True
        with ce Some Dir have "copy_entries k exts fols src dst es fs = Some (r, fs', m)" by simp
        from "4.IH"(5) [OF Some Dir True this pre w] show ?thesis .
      next
        case False
        with ce Some Dir obtain res fs1 m1
          where cr: "copy_recursive k exts fols (src @ [name]) (dst @ [name]) fs = Some (res, fs1, m1)"
          by (auto split: option.splits)
        have w1: "P fs1" by (rule "4.IH"(6) [OF Some Dir False cr pre' w])
        show ?thesis
        proof (cases res)
          case (Inl e)
          then show ?thesis using ce Some Dir False cr w1 by simp
        next
          case (Inr u)
          with ce Some Dir False cr obtain r2 m2
            where "copy_entries k exts fols src dst es fs1 = Some (r2, fs', m2)"
            by (auto split: option.splits)
          from "4.IH"(7) [OF Some Dir False cr refl Inr refl this pre w1] show ?thesis .
        qed
      qed
    next
      case Other
      with ce Some have "copy_entries k exts fols src dst es fs = Some (r, fs', m)" by simp
      from "4.IH"(8) [OF Some Other this pre w] show ?thesis .
    qed
  qed
qed simp_all

lemma copy_recursive_wf:
  "copy_recursive k exts fols src dst fs = Some (r, fs', m) \<Longrightarrow> fs_wf fs \<Longrightarrow> fs_wf fs'"
  using copy_recursive_preserves(1) [of dst fs_wf] create_dir_all_fs_wf fs_copy_wf by blast

lemma copy_recursive_frame:
  assumes "copy_recursive k exts fols src dst fs = Some (r, fs', m)" and "dst \<parallel> q"
  shows "lookup fs' q = lookup fs q"
proof -
  have par: "prefix dst d \<Longrightarrow> d \<parallel> q" for d
    using assms(2) by (metis append_Nil2 parallel_append prefixE)
  show ?thesis
    using copy_recursive_preserves(1) [of dst "\<lambda>f. lookup f q = lookup fs q", OF _ _ assms(1)]
      create_dir_all_frame fs_copy_frame par by fastforce
qed

section \<open>Properties\<close>

text \<open>C1: When the source and destination are parallel paths, the source tree has unique
  names and every directory the copy enters can be listed, and the destination does not yet
  exist below a listable parent, then with fuel above the source's height
  \<open>copy_recursive\<close> returns \<open>Ok\<close>, the destination is exactly the source without the
  skipped entries (and without the unreadable files, each of which was reported by one
  warning), and nothing outside the destination changed.\<close>

theorem copy_recursive_mirror:
  assumes "src \<parallel> dst" and "lookup fs src = Some n" and "dirs_listable fols n"
    and "names_distinct n" and "height n < k"
    and "dst \<noteq> []" and "lookup fs (butlast dst) = Some (Dir acc True)" and "map_of acc (last dst) = None"
  shows "\<exists>fs'. copy_recursive k exts fols src dst fs = Some (Inr (), fs', mirror_warnings exts fols src dst n)
           \<and> lookup fs' dst = Some (mirror_tree exts fols n)
           \<and> (\<forall>q. dst \<parallel> q \<longrightarrow> lookup fs' q = lookup fs q)"
proof -
  let ?fs' = "replace_at (butlast dst) (Dir (acc @ [(last dst, mirror_tree exts fols n)]) True) fs"
  have ct: "copy_tree exts fols src n dst fs = (Inr (), ?fs', mirror_warnings exts fols src dst n)"
    using copy_tree_fresh(1) assms(3,4,6,7,8) by blast
  have "copy_recursive k exts fols src dst fs = Some (Inr (), ?fs', mirror_warnings exts fols src dst n)"
    using copy_recursive_snapshot(1) [OF assms(1,2,4,5)] ct by simp
  moreover have "lookup ?fs' dst = Some (mirror_tree exts fols n)"
    using lookup_replace_at_child [OF assms(7,8)] assms(6) by simp
  moreover have "\<forall>q. dst \<parallel> q \<longrightarrow> lookup ?fs' q = lookup fs q"
    using copy_tree_frame(1) [OF ct] by blast
  ultimately show ?thesis by blast
qed

theorem copy_recursive_mirror_witness:
  "copy_recursive 3 [''log'', ''tmp''] [] [''src''] [''dst''] spec_example_fs
   = Some (Inr (), replace_at [] (Dir [(''src'', the (lookup spec_example_fs [''src''])),
        (''dst'', Dir [(''a.txt'', File ''A'' True), (''sub'', Dir [(''d.txt'', File ''D'' True)] True)] True)] True)
        spec_example_fs, [])"
proof -
  let ?n = "the (lookup spec_example_fs [''src''])"
  have h: "[''src''] \<parallel> [''dst'']" "lookup spec_example_fs [''src''] = Some ?n"
    "dirs_listable [] ?n" "names_distinct ?n" "height ?n < 3" "[''dst''] \<noteq> []"
    "lookup spec_example_fs (butlast [''dst'']) = Some (Dir [(''src'', ?n)] True)"
    "map_of [(''src'', ?n)] (last [''dst'']) = None"
    by (simp_all add: spec_example_fs_def parallel_def)
  from copy_recursive_mirror [OF h, of "[''log'', ''tmp'']"] obtain fs' where
    "copy_recursive 3 [''log'', ''tmp''] [] [''src''] [''dst''] spec_example_fs
       = Some (Inr (), fs', mirror_warnings [''log'', ''tmp''] [] [''src''] [''dst''] ?n)"
    by blast
  then show ?thesis
    by (simp add: spec_example_fs_def numeral_eq_Suc read_dir_def fs_copy_def write_entry_def
        file_skipped_def file_ext_lower_def folder_skipped_def rust_simps)
qed

text \<open>C18: With parallel source and destination and fuel above the source's height, a
  directory the copy must enter but cannot list makes \<open>copy_recursive\<close> return an
  error (the run is aborted), whatever the destination looks like.\<close>

theorem copy_recursive_unlistable:
  assumes "src \<parallel> dst" and "lookup fs src = Some n" and "names_distinct n" and "height n < k"
    and "\<not> dirs_listable fols n"
  shows "\<exists>e fs' m. copy_recursive k exts fols src dst fs = Some (Inl e, fs', m)"
proof -
  have "isl (fst (copy_tree exts fols src n dst fs))" using copy_tree_unlistable(1) [OF assms(5)] .
  then show ?thesis
    using copy_recursive_snapshot(1) [OF assms(1-4)]
    by (cases "copy_tree exts fols src n dst fs") (auto simp: isl_def)
qed

theorem copy_recursive_unlistable_witness:
  "\<exists>e fs' m. copy_recursive 3 [] [] [''src''] [''dst'']
      (Dir [(''src'', Dir [(''a'', File ''A'' True), (''locked'', Dir [] False)] True)] True)
      = Some (Inl e, fs', m)"
proof -
  let ?fs = "Dir [(''src'', Dir [(''a'', File ''A'' True), (''locked'', Dir [] False)] True)] True"
  have h: "[''src''] \<parallel> [''dst'']" "lookup ?fs [''src''] = Some (the (lookup ?fs [''src'']))"
    "names_distinct (the (lookup ?fs [''src'']))" "height (the (lookup ?fs [''src''])) < 3"
    "\<not> dirs_listable [] (the (lookup ?fs [''src'']))"
    by (simp_all add: parallel_def folder_skipped_def)
  show ?thesis using copy_recursive_unlistable [OF h] .
qed

text \<open>C17: When source and destination are parallel paths, fuel above the height of the
  source tree is enough: \<open>copy_recursive\<close> returns, whatever the faults and the
  destination.\<close>

theorem copy_recursive_returns:
  assumes "src \<parallel> dst" and "lookup fs src = Some n" and "names_distinct n" and "height n < k"
  shows "\<exists>r. copy_recursive k exts fols src dst fs = Some r"
  using copy_recursive_snapshot(1) [OF assms] by blast

theorem copy_recursive_returns_witness:
  "\<exists>r. copy_recursive 2 [] [] [''a'', ''src''] [''b'']
      (Dir [(''a'', Dir [(''src'', Dir [(''f'', File ''x'' False)] True)] True), (''b'', File ''y'' True)] True)
      = Some r"
proof -
  let ?fs = "Dir [(''a'', Dir [(''src'', Dir [(''f'', File ''x'' False)] True)] True), (''b'', File ''y'' True)] True"
  have h: "[''a'', ''src''] \<parallel> [''b'']" "lookup ?fs [''a'', ''src''] = Some (the (lookup ?fs [''a'', ''src'']))"
    "names_distinct (the (lookup ?fs [''a'', ''src'']))" "height (the (lookup ?fs [''a'', ''src''])) < 2"
    by (simp_all add: parallel_def)
  show ?thesis using copy_recursive_returns [OF h] .
qed

text \<open>C30: A destination inside the source is never finished. The copy first creates the
  destination, so the listing of the source shows it, and the copy descends into its own
  output, one level deeper at each step: from an empty source directory and a destination
  named by any folder that is not skipped, \<open>copy_recursive\<close> runs out of every fuel, that
  is, the Rust recursion does not end.\<close>

theorem copy_recursive_dest_inside_source:
  assumes "lookup fs src = Some (Dir [] True)" and "\<not> folder_skipped fols d"
  shows "copy_recursive k exts fols src (src @ [d]) fs = None"
  using assms
proof (induction k arbitrary: src fs)
  case 0
  then show ?case by simp
next
  case (Suc k)
  let ?fs1 = "replace_at src (Dir ([] @ [(d, Dir [] True)]) True) fs"
  have c: "create_dir_all (src @ [d]) fs = Inr ?fs1"
    using create_dir_all_fresh_child [OF Suc.prems(1)] by simp
  have l: "lookup ?fs1 src = Some (Dir [(d, Dir [] True)] True)"
    using lookup_replace_at_here [OF Suc.prems(1)] by simp
  have ld: "lookup ?fs1 (src @ [d]) = Some (Dir [] True)"
    using lookup_replace_at_child [OF Suc.prems(1), of "[]" d] by simp
  have "copy_recursive k exts fols (src @ [d]) ((src @ [d]) @ [d]) ?fs1 = None"
    by (rule Suc.IH [OF ld Suc.prems(2)])
  with c l ld Suc.prems(2) show ?case by (simp add: read_dir_def)
qed

theorem copy_recursive_dest_inside_source_witness:
  "copy_recursive 100 [] [] [''s''] [''s'', ''d''] (Dir [(''s'', Dir [] True)] True) = None"
proof -
  have "lookup (Dir [(''s'', Dir [] True)] True) [''s''] = Some (Dir [] True)" by simp
  moreover have "\<not> folder_skipped [] ''d''" by (simp add: folder_skipped_def)
  ultimately show ?thesis using copy_recursive_dest_inside_source [of _ "[''s'']" "[]" "''d''" 100 "[]"] by simp
qed

end
