(* ===== verification/Chrono.thy ===== *)
theory Chrono
  imports RustStr
begin

text \<open>
  The date formatting of the \<open>chrono\<close> crate that \<open>main.rs\<close> calls: a \<open>NaiveDateTime\<close> (here
  seconds of local time since 1970-01-01 00:00:00) is split into the day and the second
  of the day, the day into a date of the proleptic Gregorian calendar, and the fields are
  printed zero-padded: \<open>%Y-%m-%d %H:%M:%S\<close> for the table's last-run column and
  \<open>%y%m%d%H\<close> for the archive name of \<open>execute_backup\<close>. The calendar walks year by year
  from 1970 (backwards for earlier days), then month by month; the lemmas show that it
  is inverted by the closed form \<open>days_from_civil\<close> and yields valid dates.
\<close>

definition leap :: "int \<Rightarrow> bool" where
  "leap y \<longleftrightarrow> 4 dvd y \<and> (\<not> 100 dvd y \<or> 400 dvd y)"

definition year_len :: "int \<Rightarrow> int" where
  "year_len y = (if leap y then 366 else 365)"

definition month_lens :: "int \<Rightarrow> int list" where
  "month_lens y = [31, if leap y then 29 else 28, 31, 30, 31, 30, 31, 31, 30, 31, 30, 31]"

function years_back :: "int \<Rightarrow> int \<Rightarrow> int \<times> int" where
  "years_back y d = (if 0 \<le> d then (y, d) else years_back (y - 1) (d + year_len (y - 1)))"
  by pat_completeness auto
termination by (relation "measure (\<lambda>(y, d). nat (- d))") (auto simp: year_len_def)

function years_fwd :: "int \<Rightarrow> int \<Rightarrow> int \<times> int" where
  "years_fwd y d = (if d < year_len y then (y, d) else years_fwd (y + 1) (d - year_len y))"
  by pat_completeness auto
termination by (relation "measure (\<lambda>(y, d). nat d)") (auto simp: year_len_def split: if_splits)

declare years_back.simps [simp del] years_fwd.simps [simp del]

fun months_split :: "int list \<Rightarrow> int \<Rightarrow> int \<Rightarrow> int \<times> int" where
  "months_split [] m d = (m, d)"
| "months_split (l # ls) m d = (if d < l \<or> ls = [] then (m, d) else months_split ls (m + 1) (d - l))"

text \<open>Day \<open>n\<close> after 1970-01-01 as (year, month 1..12, day 1..31).\<close>

definition civil_of_days :: "int \<Rightarrow> int \<times> int \<times> int" where
  "civil_of_days n =
     (case years_back 1970 n of (y0, d0) \<Rightarrow>
        case years_fwd y0 d0 of (y, doy) \<Rightarrow>
          case months_split (month_lens y) 1 doy of (m, d) \<Rightarrow> (y, m, d + 1))"

text \<open>The inverse, in closed form: the days from year 0 to the first of January of year
  \<open>y\<close> (the leap years before \<open>y\<close>, counted with floor division, so for every year).\<close>

definition days_before :: "int \<Rightarrow> int" where
  "days_before y = 365 * y + (y + 3) div 4 - (y + 99) div 100 + (y + 399) div 400"

definition days_from_civil :: "int \<Rightarrow> int \<Rightarrow> int \<Rightarrow> int" where
  "days_from_civil y m d =
     days_before y - days_before 1970 + sum_list (take (nat (m - 1)) (month_lens y)) + (d - 1)"

subsection \<open>Printing\<close>

definition pad2 :: "int \<Rightarrow> string" where
  "pad2 x = [digit_char (nat (x div 10 mod 10)), digit_char (nat (x mod 10))]"

definition pad_to :: "nat \<Rightarrow> string \<Rightarrow> string" where
  "pad_to n s = replicate (n - length s) (CHR ''0'') @ s"

text \<open>\<open>%Y\<close>: four digits for the years 0 to 9999, otherwise a sign and at least four digits.\<close>

definition fmt_year :: "int \<Rightarrow> string" where
  "fmt_year y =
     (if 0 \<le> y \<and> y \<le> 9999 then pad2 (y div 100) @ pad2 (y mod 100)
      else (if y < 0 then CHR ''-'' else CHR ''+'') # pad_to 4 (nat_to_string (nat \<bar>y\<bar>)))"

definition day_of :: "timestamp \<Rightarrow> int" where
  "day_of t = t div 86400"

definition hour_of :: "timestamp \<Rightarrow> int" where
  "hour_of t = t mod 86400 div 3600"

definition fmt_datetime :: "timestamp \<Rightarrow> string" where
  "fmt_datetime t =
     (case civil_of_days (day_of t) of (y, m, d) \<Rightarrow>
        fmt_year y @ CHR ''-'' # pad2 m @ CHR ''-'' # pad2 d @ CHR '' '' # pad2 (hour_of t)
        @ CHR '':'' # pad2 (t mod 3600 div 60) @ CHR '':'' # pad2 (t mod 60))"

text \<open>\<open>%y%m%d%H\<close>: the year modulo 100 (\<open>rem_euclid\<close>), month, day and hour.\<close>

definition fmt_ymdh :: "timestamp \<Rightarrow> string" where
  "fmt_ymdh t =
     (case civil_of_days (day_of t) of (y, m, d) \<Rightarrow> pad2 (y mod 100) @ pad2 m @ pad2 d @ pad2 (hour_of t))"

section \<open>Lemmas\<close>

subsection \<open>The closed form counts the year lengths\<close>

lemma div_step:
  assumes "0 < (k::int)"
  shows "(y + k) div k - (y + k - 1) div k = (if k dvd y then 1 else 0)"
proof -
  let ?q = "y div k" and ?r = "y mod k"
  have r: "0 \<le> ?r" "?r < k" using assms by simp_all
  have a: "(y + k) div k = ?q + 1" using assms div_add_self2 [of k y] by simp
  have e: "y + k - 1 = (?r + k - 1) + ?q * k" by (simp add: algebra_simps)
  have b: "(y + k - 1) div k = (?r + k - 1) div k + ?q"
    unfolding e using assms by (subst div_mult_self1) auto
  show ?thesis
  proof (cases "k dvd y")
    case True
    then have "?r = 0" by simp
    then have "(?r + k - 1) div k = 0" using assms by simp
    with a b True show ?thesis by simp
  next
    case False
    then have "0 < ?r" using r by (simp add: dvd_eq_mod_eq_0 order_le_less)
    then have "(?r + k - 1) div k = (?r - 1) div k + 1" using assms div_pos_geq [of k "?r + k - 1"] by simp
    moreover have "(?r - 1) div k = 0" using r \<open>0 < ?r\<close> by simp
    ultimately show ?thesis using a b False by simp
  qed
qed
lemma days_before_step: "days_before (y + 1) = days_before y + year_len y"
proof -
  have d4: "(y + 4) div 4 - (y + 3) div 4 = (if 4 dvd y then 1 else 0)" using div_step [of 4 y] by simp
  have d100: "(y + 100) div 100 - (y + 99) div 100 = (if 100 dvd y then 1 else 0)"
    using div_step [of 100 y] by simp
  have d400: "(y + 400) div 400 - (y + 399) div 400 = (if 400 dvd y then 1 else 0)"
    using div_step [of 400 y] by simp
  have i1: "400 dvd y \<Longrightarrow> 100 dvd y" by (rule dvd_trans [of 100 400]) simp_all
  have i2: "100 dvd y \<Longrightarrow> 4 dvd y" by (rule dvd_trans [of 4 100]) simp_all
  have yl: "year_len y = 365 + (if 4 dvd y then 1 else 0) - (if 100 dvd y then 1 else 0) + (if 400 dvd y then 1 else 0)"
    using i1 i2 by (cases "4 dvd y"; cases "100 dvd y"; cases "400 dvd y") (simp_all add: year_len_def leap_def)
  have "days_before (y + 1) = days_before y + 365 + ((y + 4) div 4 - (y + 3) div 4)
      - ((y + 100) div 100 - (y + 99) div 100) + ((y + 400) div 400 - (y + 399) div 400)"
    by (simp add: days_before_def algebra_simps)
  with yl d4 d100 d400 show ?thesis by linarith
qed

lemma year_len_pos: "0 < year_len y"
  by (simp add: year_len_def)

lemma sum_month_lens: "sum_list (month_lens y) = year_len y"
  by (simp add: month_lens_def year_len_def)

lemma days_before_mono_nat: "days_before a \<le> days_before (a + int n)"
proof (induction n)
  case 0
  then show ?case by simp
next
  case (Suc n)
  have "days_before (a + int (Suc n)) = days_before (a + int n) + year_len (a + int n)"
    using days_before_step [of "a + int n"] by (simp add: ac_simps)
  with Suc year_len_pos [of "a + int n"] show ?case by simp
qed

lemma days_before_mono: "a \<le> b \<Longrightarrow> days_before a \<le> days_before b"
  using days_before_mono_nat [of a "nat (b - a)"] by simp

subsection \<open>The walks keep the day count\<close>

lemma years_back_inv:
  "years_back y d = (y', d') \<Longrightarrow> days_before y' + d' = days_before y + d \<and> 0 \<le> d'"
proof (induction y d rule: years_back.induct)
  case (1 y d)
  show ?case
  proof (cases "0 \<le> d")
    case True
    then show ?thesis using "1.prems" by (simp add: years_back.simps)
  next
    case False
    with "1.prems" have "years_back (y - 1) (d + year_len (y - 1)) = (y', d')"
      by (simp add: years_back.simps [of y d])
    with "1.IH" [OF False] days_before_step [of "y - 1"] show ?thesis by simp
  qed
qed

lemma years_fwd_inv:
  "years_fwd y d = (y', d') \<Longrightarrow> 0 \<le> d \<Longrightarrow>
     days_before y' + d' = days_before y + d \<and> 0 \<le> d' \<and> d' < year_len y'"
proof (induction y d rule: years_fwd.induct)
  case (1 y d)
  show ?case
  proof (cases "d < year_len y")
    case True
    then show ?thesis using "1.prems" by (simp add: years_fwd.simps)
  next
    case False
    with "1.prems" have "years_fwd (y + 1) (d - year_len y) = (y', d')"
      by (simp add: years_fwd.simps [of y d])
    with "1.IH" [OF False] False days_before_step [of y] show ?thesis by simp
  qed
qed

lemma months_split_inv:
  "months_split ls m d = (m', d') \<Longrightarrow> ls \<noteq> [] \<Longrightarrow> 0 \<le> d \<Longrightarrow> d < sum_list ls \<Longrightarrow>
     m \<le> m' \<and> m' < m + int (length ls) \<and> sum_list (take (nat (m' - m)) ls) + d' = d
     \<and> 0 \<le> d' \<and> d' < ls ! nat (m' - m)"
proof (induction ls m d rule: months_split.induct)
  case (2 l ls m d)
  show ?case
  proof (cases "d < l \<or> ls = []")
    case True
    then show ?thesis using "2.prems" by auto
  next
    case False
    with "2.prems" have r: "months_split ls (m + 1) (d - l) = (m', d')" by simp
    from "2.IH" [OF False r] False "2.prems"(3,4)
    have ih: "m + 1 \<le> m'" "m' < m + 1 + int (length ls)"
      "sum_list (take (nat (m' - (m + 1))) ls) + d' = d - l" "0 \<le> d'" "d' < ls ! nat (m' - (m + 1))"
      by auto
    then have "nat (m' - m) = Suc (nat (m' - (m + 1)))" by simp
    with ih show ?thesis by simp
  qed
qed simp

subsection \<open>The calendar is inverted by the closed form\<close>

lemma civil_of_days_inv:
  assumes "civil_of_days n = (y, m, d)"
  shows "days_from_civil y m d = n \<and> 1 \<le> m \<and> m \<le> 12 \<and> 1 \<le> d \<and> d \<le> month_lens y ! nat (m - 1)
         \<and> days_before y - days_before 1970 \<le> n \<and> n < days_before (y + 1) - days_before 1970"
proof -
  obtain y0 d0 where b: "years_back 1970 n = (y0, d0)" by force
  obtain doy where f: "years_fwd y0 d0 = (y, doy)" and ms: "months_split (month_lens y) 1 doy = (m, d - 1)"
    using assms b by (auto simp: civil_of_days_def split: prod.splits)
  from years_back_inv [OF b] have b': "days_before y0 + d0 = days_before 1970 + n" "0 \<le> d0" by simp_all
  from years_fwd_inv [OF f b'(2)] have f': "days_before y + doy = days_before y0 + d0" "0 \<le> doy" "doy < year_len y"
    by simp_all
  have "month_lens y \<noteq> []" "length (month_lens y) = 12" by (simp_all add: month_lens_def)
  with months_split_inv [OF ms] f'(2,3) sum_month_lens [of y]
  have "1 \<le> m" "m < 13" "sum_list (take (nat (m - 1)) (month_lens y)) + (d - 1) = doy"
    "0 \<le> d - 1" "d - 1 < month_lens y ! nat (m - 1)"
    by auto
  with b' f' days_before_step [of y] show ?thesis by (simp add: days_from_civil_def)
qed

lemma civil_of_days_inj: "civil_of_days a = civil_of_days b \<Longrightarrow> a = b"
  by (metis civil_of_days_inv prod_cases3)

lemma civil_year_range:
  assumes "civil_of_days n = (y, m, d)"
    and "days_before lo - days_before 1970 \<le> n" and "n < days_before hi - days_before 1970"
  shows "lo \<le> y \<and> y < hi"
proof -
  have n: "days_before y - days_before 1970 \<le> n" "n < days_before (y + 1) - days_before 1970"
    using civil_of_days_inv [OF assms(1)] by simp_all
  have "lo \<le> y"
  proof (rule ccontr)
    assume "\<not> lo \<le> y"
    then have "days_before (y + 1) \<le> days_before lo" by (intro days_before_mono) simp
    with n assms(2) show False by simp
  qed
  moreover have "y < hi"
  proof (rule ccontr)
    assume "\<not> y < hi"
    then have "days_before hi \<le> days_before y" by (intro days_before_mono) simp
    with n assms(3) show False by simp
  qed
  ultimately show ?thesis ..
qed

lemma month_lens_le: "k < 12 \<Longrightarrow> month_lens y ! k \<le> 31"
proof -
  assume "k < 12"
  moreover have "length (month_lens y) = 12" by (simp add: month_lens_def)
  ultimately have "month_lens y ! k \<in> set (month_lens y)" by simp
  moreover have "\<forall>x\<in>set (month_lens y). x \<le> 31" by (simp add: month_lens_def)
  ultimately show ?thesis by blast
qed

lemma civil_of_days_fields:
  assumes "civil_of_days n = (y, m, d)"
  shows "1 \<le> m \<and> m \<le> 12 \<and> 1 \<le> d \<and> d \<le> 31"
proof -
  have "1 \<le> m" "m \<le> 12" "1 \<le> d" "d \<le> month_lens y ! nat (m - 1)"
    using civil_of_days_inv [OF assms] by simp_all
  moreover from this have "nat (m - 1) < 12" by simp
  ultimately show ?thesis using month_lens_le [of "nat (m - 1)" y] by simp
qed

subsection \<open>Integer digits\<close>

lemma base_split:
  fixes a b c d k :: int
  assumes "k * a + b = k * c + d" "0 \<le> b" "b < k" "0 \<le> d" "d < k"
  shows "a = c \<and> b = d"
proof -
  have "(k * a + b) div k = a" "(k * c + d) div k = c" using assms(2-5) by simp_all
  moreover from assms(1) have "(k * a + b) div k = (k * c + d) div k" by simp
  ultimately have "a = c" by simp
  with assms(1) show ?thesis by simp
qed
lemma century_mod: "2000 \<le> (y::int) \<Longrightarrow> y < 2100 \<Longrightarrow> y mod 100 = y - 2000"
proof -
  assume a: "2000 \<le> y" "y < 2100"
  have "y mod 100 = (y - 2000 + 20 * 100) mod 100" by simp
  also have "\<dots> = (y - 2000) mod 100" by (rule mod_mult_self1)
  also have "\<dots> = y - 2000" using a by simp
  finally show ?thesis .
qed
lemma time_split: "(t::int) = 3600 * (t div 3600) + 60 * (t mod 3600 div 60) + t mod 60"
proof -
  have "t mod 3600 mod 60 = t mod 60" by (rule mod_mod_cancel) simp
  then have "t mod 3600 = 60 * (t mod 3600 div 60) + t mod 60" by (metis mult_div_mod_eq)
  then show ?thesis by (metis add.assoc mult_div_mod_eq)
qed
lemma two_digits: "0 \<le> (a::int) \<Longrightarrow> a < 100 \<Longrightarrow> a = 10 * (a div 10 mod 10) + a mod 10"
proof -
  assume "0 \<le> a" "a < 100"
  then have "a div 10 < 10" by simp
  then have "a div 10 mod 10 = a div 10" using \<open>0 \<le> a\<close> by simp
  then show ?thesis by simp
qed
subsection \<open>Printing two digits\<close>

lemma length_pad2 [simp]: "length (pad2 x) = 2"
  by (simp add: pad2_def)

lemma pad2_inj:
  assumes "pad2 a = pad2 b" and "0 \<le> a" "a < 100" "0 \<le> b" "b < 100"
  shows "a = b"
proof -
  have "digit_value (digit_char (nat (a div 10 mod 10))) = digit_value (digit_char (nat (b div 10 mod 10)))"
    "digit_value (digit_char (nat (a mod 10))) = digit_value (digit_char (nat (b mod 10)))"
    using assms(1) by (simp_all add: pad2_def)
  then have "a div 10 mod 10 = b div 10 mod 10" "a mod 10 = b mod 10" by (simp_all add: eq_nat_nat_iff)
  then show ?thesis using two_digits [of a] two_digits [of b] assms(2-5) by simp
qed

lemma append_pad2_iff: "pad2 a @ xs = pad2 b @ ys \<longleftrightarrow> pad2 a = pad2 b \<and> xs = ys"
  by (simp add: append_eq_append_conv)

subsection \<open>A time stamp is its day, hour, minute and second\<close>

lemma hour_split: "t div 3600 = 24 * day_of t + hour_of t" "0 \<le> hour_of t" "hour_of t < 24"
proof -
  have e: "t = t mod 86400 + (day_of t * 24) * 3600" by (simp add: day_of_def)
  have "t div 3600 = (t mod 86400 + (day_of t * 24) * 3600) div 3600" by (subst e) simp
  also have "\<dots> = t mod 86400 div 3600 + day_of t * 24" by (subst div_mult_self1) (simp_all add: add.commute)
  finally show "t div 3600 = 24 * day_of t + hour_of t" by (simp add: hour_of_def)
  show "0 \<le> hour_of t" by (simp add: hour_of_def)
  have "t mod 86400 < 86400" by simp
  then show "hour_of t < 24" by (simp add: hour_of_def)
qed

lemma same_hour_iff:
  "t1 div 3600 = t2 div 3600 \<longleftrightarrow> day_of t1 = day_of t2 \<and> hour_of t1 = hour_of t2"
proof
  assume "t1 div 3600 = t2 div 3600"
  then show "day_of t1 = day_of t2 \<and> hour_of t1 = hour_of t2"
    using base_split [of 24 "day_of t1" "hour_of t1" "day_of t2" "hour_of t2"]
      hour_split [of t1] hour_split [of t2] by simp
qed (simp add: hour_split)

subsection \<open>What the formats tell apart\<close>

lemma fmt_ymdh_same_hour: "t1 div 3600 = t2 div 3600 \<Longrightarrow> fmt_ymdh t1 = fmt_ymdh t2"
  by (simp add: same_hour_iff fmt_ymdh_def)

lemma day_of_range:
  assumes "lo * 86400 \<le> t" and "t < hi * 86400"
  shows "lo \<le> day_of t \<and> day_of t < hi"
proof
  have "lo = (lo * 86400) div 86400" by simp
  also have "\<dots> \<le> t div 86400" by (rule zdiv_mono1) (simp_all add: assms(1))
  finally show "lo \<le> day_of t" by (simp add: day_of_def)
  have "t div 86400 * 86400 \<le> t" using mult_div_mod_eq [of 86400 t] pos_mod_sign [of 86400 t] by linarith
  then have "t div 86400 * 86400 < hi * 86400" using assms(2) by linarith
  then show "day_of t < hi" by (simp add: day_of_def)
qed

text \<open>Within 2000 to 2099 the archive stamp names the hour.\<close>

lemma fmt_ymdh_hour:
  assumes "946684800 \<le> t1" "t1 < 4102444800" "946684800 \<le> t2" "t2 < 4102444800"
  shows "fmt_ymdh t1 = fmt_ymdh t2 \<longleftrightarrow> t1 div 3600 = t2 div 3600"
proof
  assume eq: "fmt_ymdh t1 = fmt_ymdh t2"
  obtain y1 m1 d1 where c1: "civil_of_days (day_of t1) = (y1, m1, d1)" by (metis prod_cases3)
  obtain y2 m2 d2 where c2: "civil_of_days (day_of t2) = (y2, m2, d2)" by (metis prod_cases3)
  have r: "10957 \<le> day_of t1 \<and> day_of t1 < 47482" "10957 \<le> day_of t2 \<and> day_of t2 < 47482"
    using day_of_range [of 10957 t1 47482] day_of_range [of 10957 t2 47482] assms by simp_all
  have b: "days_before 2000 - days_before 1970 = 10957" "days_before 2100 - days_before 1970 = 47482"
    by (simp_all add: days_before_def)
  have y: "2000 \<le> y1 \<and> y1 < 2100" "2000 \<le> y2 \<and> y2 < 2100"
    using civil_year_range [OF c1, of 2000 2100] civil_year_range [OF c2, of 2000 2100] r b by simp_all
  have f: "1 \<le> m1 \<and> m1 \<le> 12 \<and> 1 \<le> d1 \<and> d1 \<le> 31" "1 \<le> m2 \<and> m2 \<le> 12 \<and> 1 \<le> d2 \<and> d2 \<le> 31"
    using civil_of_days_fields [OF c1] civil_of_days_fields [OF c2] by simp_all
  from eq c1 c2 have "pad2 (y1 mod 100) = pad2 (y2 mod 100) \<and> pad2 m1 = pad2 m2 \<and> pad2 d1 = pad2 d2
    \<and> pad2 (hour_of t1) = pad2 (hour_of t2)"
    by (simp add: fmt_ymdh_def append_pad2_iff)
  then have "y1 mod 100 = y2 mod 100" "m1 = m2" "d1 = d2" "hour_of t1 = hour_of t2"
    using f hour_split [of t1] hour_split [of t2] by (auto intro: pad2_inj)
  moreover from this y century_mod [of y1] century_mod [of y2] have "y1 = y2" by simp
  ultimately have "civil_of_days (day_of t1) = civil_of_days (day_of t2)" "hour_of t1 = hour_of t2"
    using c1 c2 by simp_all
  then show "t1 div 3600 = t2 div 3600" by (simp add: same_hour_iff civil_of_days_inj)
qed (rule fmt_ymdh_same_hour)

text \<open>For the years 0 to 9999 the date-time column tells every two seconds apart.\<close>

lemma fmt_datetime_inj:
  assumes "fmt_datetime t1 = fmt_datetime t2"
    and "-62167219200 \<le> t1" "t1 < 253402300800" "-62167219200 \<le> t2" "t2 < 253402300800"
  shows "t1 = t2"
proof -
  obtain y1 m1 d1 where c1: "civil_of_days (day_of t1) = (y1, m1, d1)" by (metis prod_cases3)
  obtain y2 m2 d2 where c2: "civil_of_days (day_of t2) = (y2, m2, d2)" by (metis prod_cases3)
  have r: "-719528 \<le> day_of t1 \<and> day_of t1 < 2932897" "-719528 \<le> day_of t2 \<and> day_of t2 < 2932897"
    using day_of_range [of "-719528" t1 2932897] day_of_range [of "-719528" t2 2932897] assms(2-5)
    by simp_all
  have b: "days_before 0 - days_before 1970 = -719528" "days_before 10000 - days_before 1970 = 2932897"
    by (simp_all add: days_before_def)
  have y: "0 \<le> y1 \<and> y1 < 10000" "0 \<le> y2 \<and> y2 < 10000"
    using civil_year_range [OF c1, of 0 10000] civil_year_range [OF c2, of 0 10000] r b by simp_all
  have f: "1 \<le> m1 \<and> m1 \<le> 12 \<and> 1 \<le> d1 \<and> d1 \<le> 31" "1 \<le> m2 \<and> m2 \<le> 12 \<and> 1 \<le> d2 \<and> d2 \<le> 31"
    using civil_of_days_fields [OF c1] civil_of_days_fields [OF c2] by simp_all
  from assms(1) c1 c2 y have "pad2 (y1 div 100) = pad2 (y2 div 100) \<and> pad2 (y1 mod 100) = pad2 (y2 mod 100)
    \<and> pad2 m1 = pad2 m2 \<and> pad2 d1 = pad2 d2 \<and> pad2 (hour_of t1) = pad2 (hour_of t2)
    \<and> pad2 (t1 mod 3600 div 60) = pad2 (t2 mod 3600 div 60) \<and> pad2 (t1 mod 60) = pad2 (t2 mod 60)"
    by (simp add: fmt_datetime_def fmt_year_def append_pad2_iff)
  then have "y1 div 100 = y2 div 100" "y1 mod 100 = y2 mod 100" "m1 = m2" "d1 = d2"
    "hour_of t1 = hour_of t2" "t1 mod 3600 div 60 = t2 mod 3600 div 60" "t1 mod 60 = t2 mod 60"
    using y f hour_split [of t1] hour_split [of t2] by (auto intro: pad2_inj)
  moreover from this have "y1 = y2" by (metis mult_div_mod_eq)
  ultimately have "day_of t1 = day_of t2" "hour_of t1 = hour_of t2"
    "t1 mod 3600 div 60 = t2 mod 3600 div 60" "t1 mod 60 = t2 mod 60"
    using c1 c2 civil_of_days_inj by simp_all
  then show ?thesis using time_split [of t1] time_split [of t2] hour_split [of t1] hour_split [of t2] by simp
qed

end
