(* ===== verification/Backup.thy ===== *)
theory Backup
  imports Copy Chrono
begin

text \<open>
  One run of a job, \<open>execute_backup\<close> of \<open>main.rs\<close>, as the worker thread executes it on
  its snapshot of the job: check the source exists, create the destination if it is
  missing, send the start line, copy with the tokens parsed from the job's labels, then,
  if the job zips, delete an old archive of the same name and run 7z, and send the
  completion line. The messages are returned in the order the worker sends them; the
  result is the worker's \<open>bool\<close>. The external tool is an input: \<open>zip_status\<close> is what
  \<open>Command::status()\<close> returned, and on success the archive file exists afterwards.
  \<open>ts\<close> is the local time at which the worker names the archive (\<open>Local::now()\<close>, printed
  \<open>%y%m%d%H\<close> by \<open>fmt_ymdh\<close> of the \<open>Chrono\<close> theory), \<open>k\<close> the fuel of the copy
  (\<open>None\<close>: it ran out).
\<close>

text \<open>\<open>if !dest.exists() { fs::create_dir_all(dest)? }\<close>, the pattern \<open>execute_backup\<close>,
  \<open>action_add\<close> and \<open>action_edit\<close> share.\<close>

definition ensure_dir :: "string \<Rightarrow> node \<Rightarrow> io_error + node" where
  "ensure_dir d fs = (if path_exists fs d then Inr fs else create_dir_all (path_of d) fs)"

definition zip_name :: "schedule \<Rightarrow> timestamp \<Rightarrow> string" where
  "zip_name s now = dest_dir s @ ''_'' @ fmt_ymdh now @ ''.zip''"

definition zip_step :: "timestamp \<Rightarrow> zip_status \<Rightarrow> schedule \<Rightarrow> node \<Rightarrow> node \<times> app_msg list" where
  "zip_step ts st s fs =
     (let zn = zip_name s ts;
          fs1 = (if path_exists fs zn
                 then (case remove_file (path_of zn) fs of Inl _ \<Rightarrow> fs | Inr fs' \<Rightarrow> fs')
                 else fs)
      in case st of
           ZipSuccess \<Rightarrow>
             ((case write_file (path_of zn) ''7z archive'' fs1 of Inl _ \<Rightarrow> fs1 | Inr fs2 \<Rightarrow> fs2),
              [Log (LZipped zn)])
         | ZipExit code \<Rightarrow> (fs1, [Log (LZipExited code)])
         | ZipLaunchError \<Rightarrow> (fs1, [Log LZipLaunchFailed]))"

definition execute_backup ::
  "nat \<Rightarrow> timestamp \<Rightarrow> zip_status \<Rightarrow> schedule \<Rightarrow> node \<Rightarrow> (bool \<times> node \<times> app_msg list) option" where
  "execute_backup k ts zst s fs =
     (let src = path_of (source_dir s); dst = path_of (dest_dir s) in
      if \<not> path_exists fs (source_dir s)
      then Some (False, fs, [Log (LSourceNotExist (source_dir s))])
      else
        (case ensure_dir (dest_dir s) fs of
           Inl e \<Rightarrow> Some (False, fs, [Log (LWorkerCreateDestFailed e)])
         | Inr fs1 \<Rightarrow>
             (let exts = parse_skip_tokens (skip_file_exts_label s);
                  fols = skip_folder_tokens (skip_folders_label s)
              in case copy_recursive k exts fols src dst fs1 of
                   None \<Rightarrow> None
                 | Some (Inl e, fs2, m) \<Rightarrow>
                     Some (False, fs2, Log (LRunStarted (source_dir s)) # m @ [Log (LCopyFailed e)])
                 | Some (Inr _, fs2, m) \<Rightarrow>
                     (case (if use_zip s then zip_step ts zst s fs2 else (fs2, [])) of
                        (fs3, zm) \<Rightarrow>
                          Some (True, fs3,
                                Log (LRunStarted (source_dir s)) # m @ zm
                                  @ [Log (LRunCompleted (source_dir s))])))))"

definition spec_example_job :: schedule where
  "spec_example_job = schedule_new ''src'' ''dst'' 24 ''*.log *.tmp'' [] False 0"

section \<open>Lemmas\<close>

text \<open>The success flag of a run: the source exists, the destination could be created, and
  the copy did not fail.\<close>

lemma execute_backup_flag:
  "map_option fst (execute_backup k ts zst s fs) =
     (if \<not> path_exists fs (source_dir s) then Some False
      else case ensure_dir (dest_dir s) fs of
             Inl e \<Rightarrow> Some False
           | Inr fs1 \<Rightarrow>
               map_option (\<lambda>r. \<not> isl (fst r))
                 (copy_recursive k (parse_skip_tokens (skip_file_exts_label s))
                    (skip_folder_tokens (skip_folders_label s)) (path_of (source_dir s))
                    (path_of (dest_dir s)) fs1))"
  by (simp add: execute_backup_def Let_def prod.case_eq_if split: sum.split option.split)

text \<open>A run ends when source and destination are parallel and fuel exceeds the height
  of the source tree: every branch before the copy returns, the destination's creation
  leaves the source alone, and the copy then reads a snapshot.\<close>

lemma execute_backup_total:
  assumes "path_of (source_dir s) \<parallel> path_of (dest_dir s)"
    and "lookup fs (path_of (source_dir s)) = Some n" and "names_distinct n" and "height n < k"
  shows "\<exists>r. execute_backup k ts zst s fs = Some r"
proof (cases "ensure_dir (dest_dir s) fs")
  case (Inl e)
  then show ?thesis by (auto simp: execute_backup_def Let_def)
next
  case (Inr fs1)
  have "lookup fs1 (path_of (source_dir s)) = Some n"
    using Inr assms(1,2) create_dir_all_frame [of "path_of (dest_dir s)" fs fs1 "path_of (source_dir s)"]
    by (auto simp: ensure_dir_def parallel_commute split: if_splits)
  then obtain res fs2 m where "copy_recursive k (parse_skip_tokens (skip_file_exts_label s))
      (skip_folder_tokens (skip_folders_label s)) (path_of (source_dir s)) (path_of (dest_dir s)) fs1
      = Some (res, fs2, m)"
    using copy_recursive_snapshot(1) [OF assms(1) _ assms(3,4)] by (metis prod_cases3)
  with Inr show ?thesis
    by (cases res) (auto simp: execute_backup_def Let_def split: prod.split)
qed

text \<open>A run changes the filesystem in three places only: it creates the destination, copies
  into it, and writes the archive; so it keeps whatever those three keep.\<close>

lemma execute_backup_preserves:
  assumes run: "execute_backup k ts zst s fs = Some (ok, fs', m)" and "P fs"
    and ens: "\<And>f f'. ensure_dir (dest_dir s) f = Inr f' \<Longrightarrow> P f \<Longrightarrow> P f'"
    and cpy: "\<And>f f' r m'. copy_recursive k (parse_skip_tokens (skip_file_exts_label s))
               (skip_folder_tokens (skip_folders_label s)) (path_of (source_dir s)) (path_of (dest_dir s)) f
               = Some (r, f', m') \<Longrightarrow> P f \<Longrightarrow> P f'"
    and zip: "\<And>f. P f \<Longrightarrow> P (fst (zip_step ts zst s f))"
  shows "P fs'"
proof (cases "ensure_dir (dest_dir s) fs")
  case (Inl e)
  then show ?thesis using run \<open>P fs\<close> by (auto simp: execute_backup_def Let_def split: if_splits)
next
  case (Inr fs1)
  have w1: "P fs1" using ens [OF Inr \<open>P fs\<close>] .
  show ?thesis
  proof (cases "copy_recursive k (parse_skip_tokens (skip_file_exts_label s))
      (skip_folder_tokens (skip_folders_label s)) (path_of (source_dir s)) (path_of (dest_dir s)) fs1")
    case None
    then show ?thesis using run \<open>P fs\<close> Inr by (simp add: execute_backup_def Let_def split: if_splits)
  next
    case (Some r)
    obtain res fs2 m2 where r: "r = (res, fs2, m2)" by (cases r)
    have w2: "P fs2" using cpy [OF Some [unfolded r] w1] .
    show ?thesis using run \<open>P fs\<close> Inr Some r w2 zip [OF w2]
      by (cases res) (auto simp: execute_backup_def Let_def split: if_splits prod.splits)
  qed
qed

lemma ensure_dir_wf: "ensure_dir d fs = Inr fs' \<Longrightarrow> fs_wf fs \<Longrightarrow> fs_wf fs'"
  by (auto simp: ensure_dir_def dest: create_dir_all_fs_wf split: if_splits)

lemma zip_step_wf: "fs_wf fs \<Longrightarrow> fs_wf (fst (zip_step ts zst s fs))"
  by (cases zst) (auto simp: zip_step_def Let_def dest: remove_file_wf write_file_wf split: sum.splits)

lemma execute_backup_wf:
  "execute_backup k ts zst s fs = Some (ok, fs', m) \<Longrightarrow> fs_wf fs \<Longrightarrow> fs_wf fs'"
  by (erule execute_backup_preserves) (auto dest: ensure_dir_wf zip_step_wf copy_recursive_wf(1))

text \<open>Nothing parallel to the destination and to the archive changes.\<close>

lemma ensure_dir_frame: "ensure_dir d fs = Inr fs' \<Longrightarrow> path_of d \<parallel> q \<Longrightarrow> lookup fs' q = lookup fs q"
  by (auto simp: ensure_dir_def dest: create_dir_all_frame split: if_splits)

lemma zip_step_frame:
  assumes "path_of (zip_name s ts) \<parallel> q"
  shows "lookup (fst (zip_step ts zst s fs)) q = lookup fs q"
proof -
  let ?z = "path_of (zip_name s ts)"
  have rm: "lookup (case remove_file ?z fs of Inl _ \<Rightarrow> fs | Inr f \<Rightarrow> f) q = lookup fs q"
    using remove_file_frame assms by (auto split: sum.split)
  have wr: "lookup (case write_file ?z c f of Inl _ \<Rightarrow> f | Inr f' \<Rightarrow> f') q = lookup f q" for c f
    using write_file_frame assms by (auto split: sum.split)
  show ?thesis using rm wr by (cases zst) (simp_all add: zip_step_def Let_def)
qed

lemma execute_backup_frame:
  "execute_backup k ts zst s fs = Some (ok, fs', m) \<Longrightarrow> path_of (dest_dir s) \<parallel> q
   \<Longrightarrow> path_of (zip_name s ts) \<parallel> q \<Longrightarrow> lookup fs' q = lookup fs q"
  by (erule execute_backup_preserves [where P = "\<lambda>f. lookup f q = lookup fs q"])
    (auto dest: ensure_dir_frame copy_recursive_frame simp: zip_step_frame)

section \<open>Properties\<close>

text \<open>C24: The archiver never decides the outcome of a run: whatever 7z returns, and
  whether the job zips at all, the run's success flag is the same.\<close>

theorem execute_backup_zip_irrelevant:
  "map_option fst (execute_backup k ts zst s fs)
     = map_option fst (execute_backup k ts zst' (s\<lparr>use_zip := b\<rparr>) fs)"
  by (simp only: execute_backup_flag) (simp split: sum.split)

text \<open>C5: A run of a job that does not zip, on an existing source tree whose directories
  can all be listed and whose destination does not exist yet (below a listable parent,
  parallel to the source), reports success; its messages are the start line, one warning
  per unreadable file and the completion line; and the destination is the source without
  the entries the job's labels skip.\<close>

theorem execute_backup_mirror:
  assumes "path_of (source_dir s) \<parallel> path_of (dest_dir s)" and "source_dir s \<noteq> []"
    and "lookup fs (path_of (source_dir s)) = Some n"
    and "dirs_listable (skip_folder_tokens (skip_folders_label s)) n" and "names_distinct n"
    and "height n < k" and "\<not> use_zip s" and "path_of (dest_dir s) \<noteq> []"
    and "lookup fs (butlast (path_of (dest_dir s))) = Some (Dir acc True)"
    and "map_of acc (last (path_of (dest_dir s))) = None"
  shows "\<exists>fs'. execute_backup k ts zst s fs =
           Some (True, fs', Log (LRunStarted (source_dir s)) #
             mirror_warnings (parse_skip_tokens (skip_file_exts_label s))
               (skip_folder_tokens (skip_folders_label s)) (path_of (source_dir s)) (path_of (dest_dir s)) n
             @ [Log (LRunCompleted (source_dir s))])
         \<and> lookup fs' (path_of (dest_dir s)) =
             Some (mirror_tree (parse_skip_tokens (skip_file_exts_label s))
                     (skip_folder_tokens (skip_folders_label s)) n)"
proof -
  let ?src = "path_of (source_dir s)" and ?dst = "path_of (dest_dir s)"
  let ?exts = "parse_skip_tokens (skip_file_exts_label s)"
    and ?fols = "skip_folder_tokens (skip_folders_label s)"
  have dst: "?dst = butlast ?dst @ [last ?dst]" using assms(8) by simp
  let ?fs1 = "replace_at (butlast ?dst) (Dir (acc @ [(last ?dst, Dir [] True)]) True) fs"
  have se: "path_exists fs (source_dir s)" using assms(2,3) by (simp add: path_exists_def)
  have "lookup fs ?dst = None"
    using assms(9,10) dst lookup_append [of fs "butlast ?dst" "[last ?dst]"] by simp
  then have de: "\<not> path_exists fs (dest_dir s)" by (simp add: path_exists_def)
  have cd: "create_dir_all ?dst fs = Inr ?fs1"
    using create_dir_all_fresh_child [OF assms(9,10)] dst by metis
  have l1: "lookup ?fs1 ?dst = Some (Dir [] True)"
    using lookup_replace_at_child [OF assms(9,10)] dst by metis
  have l2: "lookup ?fs1 ?src = Some n"
    using create_dir_all_frame [OF cd] assms(1,3) by (simp add: parallel_commute)
  have cr: "copy_recursive k ?exts ?fols ?src ?dst ?fs1 =
              Some (Inr (), replace_at ?dst (mirror_tree ?exts ?fols n) ?fs1,
                    mirror_warnings ?exts ?fols ?src ?dst n)"
    using copy_recursive_snapshot(1) [OF assms(1) l2 assms(5,6)] copy_tree_into_empty [OF l1 assms(4,5)]
    by simp
  have "lookup (replace_at ?dst (mirror_tree ?exts ?fols n) ?fs1) ?dst = Some (mirror_tree ?exts ?fols n)"
    using lookup_replace_at_here [OF l1] .
  with se de cd cr assms(7) show ?thesis by (simp add: execute_backup_def Let_def ensure_dir_def)
qed

theorem execute_backup_mirror_witness:
  "\<exists>fs'. execute_backup 3 1794225600 ZipSuccess spec_example_job spec_example_fs =
      Some (True, fs', [Log (LRunStarted ''src''), Log (LRunCompleted ''src'')])
    \<and> lookup fs' [''dst''] =
      Some (Dir [(''a.txt'', File ''A'' True), (''sub'', Dir [(''d.txt'', File ''D'' True)] True)] True)"
proof -
  let ?n = "the (lookup spec_example_fs [''src''])"
  have p: "path_of ''src'' = [''src'']" "path_of ''dst'' = [''dst'']" by (simp_all add: path_of_def)
  have h: "path_of (source_dir spec_example_job) \<parallel> path_of (dest_dir spec_example_job)"
    "source_dir spec_example_job \<noteq> []"
    "lookup spec_example_fs (path_of (source_dir spec_example_job)) = Some ?n"
    "dirs_listable (skip_folder_tokens (skip_folders_label spec_example_job)) ?n"
    "names_distinct ?n" "height ?n < 3" "\<not> use_zip spec_example_job"
    "path_of (dest_dir spec_example_job) \<noteq> []"
    "lookup spec_example_fs (butlast (path_of (dest_dir spec_example_job))) = Some (Dir [(''src'', ?n)] True)"
    "map_of [(''src'', ?n)] (last (path_of (dest_dir spec_example_job))) = None"
    by (simp_all add: p spec_example_job_def schedule_new_def spec_example_fs_def parallel_def
        skip_folder_tokens_def)
  have tok: "parse_skip_tokens ''*.log *.tmp'' = [''log'', ''tmp'']"
    by (simp add: parse_skip_tokens_def rust_simps trim_start_matches.simps)
  from execute_backup_mirror [OF h, of "1794225600" ZipSuccess] show ?thesis
    by (simp add: p tok spec_example_job_def schedule_new_def spec_example_fs_def skip_folder_tokens_def
        file_skipped_def file_ext_lower_def folder_skipped_def rust_simps)
qed

text \<open>C12: Archive names are per clock hour (spec: \<open><dest_path>_<YYMMDDHH>.zip\<close>, deleted
  first if it exists). For runs between 2000 and 2099, two runs of a job write the same
  archive name exactly when they start zipping within the same hour, so a second run in
  that hour replaces the first run's archive and runs in different hours never do.\<close>

theorem archive_name_per_hour:
  assumes "946684800 \<le> t1" "t1 < 4102444800" "946684800 \<le> t2" "t2 < 4102444800"
  shows "zip_name s t1 = zip_name s t2 \<longleftrightarrow> t1 div 3600 = t2 div 3600"
  using fmt_ymdh_hour [OF assms] by (simp add: zip_name_def)

theorem archive_name_per_hour_witness:
  "zip_name spec_example_job 1794182400 = ''dst_26110900.zip''
   \<and> zip_name spec_example_job 1794182400 = zip_name spec_example_job 1794184200
   \<and> zip_name spec_example_job 1794182400 \<noteq> zip_name spec_example_job 1794186000"
proof -
  have a: "zip_name spec_example_job 1794182400 = ''dst_26110900.zip''" by code_simp
  have b: "zip_name spec_example_job 1794182400 = zip_name spec_example_job 1794184200"
    using archive_name_per_hour [of 1794182400 1794184200 spec_example_job] by simp
  have c: "zip_name spec_example_job 1794182400 \<noteq> zip_name spec_example_job 1794186000"
    using archive_name_per_hour [of 1794182400 1794186000 spec_example_job] by simp
  from a b c show ?thesis by blast
qed

end
