(* ===== verification/Persist.thy ===== *)
theory Persist
  imports Job
begin

text \<open>
  Persistence of the job list, \<open>save_data\<close> and \<open>load_data\<close> of \<open>main.rs\<close>. The file
  lives at \<open>ini_path()\<close> (an input: \<open>None\<close> when the executable's directory is
  unknown) on the same filesystem the jobs copy. \<open>save_data\<close> writes a title line, the
  count, and one comma-separated line per job; every error is ignored. \<open>load_data\<close> reads
  the title, the count, and then \<open>count\<close> lines, turning each line with at least three
  fields into a job (\<open>Schedule::new\<close>, so with the current time and not running).
  \<open>BufRead::read_line\<close> returns a line with its terminating newline, or the rest of the
  file, or nothing at its end.
\<close>

section \<open>Writing\<close>

definition schedule_line :: "schedule \<Rightarrow> string" where
  "schedule_line s =
     source_dir s @ CHR '','' # dest_dir s @ CHR '','' # int_to_string (period_hours s) @
     CHR '','' # skip_file_exts_label s @ CHR '','' # skip_folders_label s @
     CHR '','' # bool_to_string (use_zip s)"

definition save_content :: "schedule list \<Rightarrow> string" where
  "save_content ss =
     ''Count'' @ [CHR 0x0A] @ nat_to_string (length ss) @ [CHR 0x0A] @
     concat (map (\<lambda>s. schedule_line s @ [CHR 0x0A]) ss)"

definition save_data :: "path option \<Rightarrow> app_state \<Rightarrow> node \<Rightarrow> node" where
  "save_data ini st fs =
     (case ini of
        None \<Rightarrow> fs
      | Some p \<Rightarrow>
          (let fs1 = (case create_dir_all (butlast p) fs of Inl _ \<Rightarrow> fs | Inr f \<Rightarrow> f)
           in case write_file p (save_content (schedules st)) fs1 of Inl _ \<Rightarrow> fs1 | Inr f \<Rightarrow> f))"

section \<open>Reading\<close>

definition read_line :: "string \<Rightarrow> string \<times> string" where
  "read_line s =
     (case dropWhile (\<lambda>c. c \<noteq> CHR 0x0A) s of
        [] \<Rightarrow> (s, [])
      | _ # rest \<Rightarrow> (takeWhile (\<lambda>c. c \<noteq> CHR 0x0A) s @ [CHR 0x0A], rest))"

definition field :: "string list \<Rightarrow> nat \<Rightarrow> string" where
  "field parts i = (if i < length parts then parts ! i else [])"

definition parse_record :: "string list \<Rightarrow> timestamp \<Rightarrow> schedule" where
  "parse_record parts now =
     schedule_new (field parts 0) (field parts 1)
       (case parse_i32 (field parts 2) of Some p \<Rightarrow> p | None \<Rightarrow> 24)
       (field parts 3) (field parts 4)
       (if 5 < length parts then (case parse_bool (parts ! 5) of Some b \<Rightarrow> b | None \<Rightarrow> False) else False)
       now"

fun load_records :: "nat \<Rightarrow> string \<Rightarrow> timestamp \<Rightarrow> schedule list" where
  "load_records 0 rest now = []"
| "load_records (Suc c) rest now =
     (case read_line rest of
        (line, rest') \<Rightarrow>
          (let parts = split_by (\<lambda>x. x = CHR '','') (trim_end line) in
           if 3 \<le> length parts then parse_record parts now # load_records c rest' now
           else load_records c rest' now))"

definition load_content :: "string \<Rightarrow> timestamp \<Rightarrow> schedule list" where
  "load_content c now =
     (case read_line c of
        (title, r1) \<Rightarrow>
          (case read_line r1 of
             (cl, r2) \<Rightarrow>
               load_records (case parse_usize (trim cl) of Some n \<Rightarrow> n | None \<Rightarrow> 0) r2 now))"

text \<open>\<open>File::open\<close> succeeds on a readable file and on a directory (whose reads then fail,
  so nothing is loaded); it fails on an unreadable file and on anything else.\<close>

definition load_data :: "path option \<Rightarrow> timestamp \<Rightarrow> node \<Rightarrow> app_state \<Rightarrow> app_state" where
  "load_data ini now fs st =
     (case ini of
        None \<Rightarrow> st
      | Some p \<Rightarrow>
          (case lookup fs p of
             Some (File c True) \<Rightarrow>
               (let st1 = st\<lparr>schedules := schedules st @ load_content c now\<rparr>
                in log (LLoaded (length (schedules st1))) st1)
           | Some (Dir _ _) \<Rightarrow> log (LLoaded (length (schedules st))) st
           | _ \<Rightarrow> st))"

text \<open>A job survives the file format when its four text fields hold no comma and no line
  break and its period is an \<open>i32\<close>.\<close>

definition persistable :: "schedule \<Rightarrow> bool" where
  "persistable s \<longleftrightarrow>
     list_all (\<lambda>f. CHR '','' \<notin> set f \<and> CHR 0x0A \<notin> set f)
       [source_dir s, dest_dir s, skip_file_exts_label s, skip_folders_label s]
     \<and> i32_min \<le> period_hours s \<and> period_hours s \<le> i32_max"

section \<open>Lemmas\<close>

lemma read_line_newline:
  assumes "CHR 0x0A \<notin> set l"
  shows "read_line (l @ CHR 0x0A # rest) = (l @ [CHR 0x0A], rest)"
proof -
  have "\<And>x. x \<in> set l \<Longrightarrow> x \<noteq> CHR 0x0A" using assms by blast
  then show ?thesis by (simp add: read_line_def)
qed

lemma split_comma_no_sep: "CHR '','' \<notin> set s \<Longrightarrow> split_by (\<lambda>x. x = CHR '','') s = [s]"
  by (rule split_by_no_match) auto

lemma trim_end_snoc_ws: "is_whitespace c \<Longrightarrow> trim_end (l @ [c]) = trim_end l"
  by (simp add: trim_end_def)

lemma schedule_line_trim_end:
  "trim_end (schedule_line s @ [CHR 0x0A]) = schedule_line s"
proof -
  obtain w c where b: "bool_to_string (use_zip s) = w @ [c]" and "\<not> is_whitespace c"
    by (cases "use_zip s") (auto simp: bool_to_string_def is_whitespace_def)
  then show ?thesis
    by (simp add: trim_end_snoc_ws is_whitespace_def schedule_line_def trim_end_no_ws_last
        flip: append_assoc append_Cons)
qed

lemma schedule_line_no_newline:
  "persistable s \<Longrightarrow> CHR 0x0A \<notin> set (schedule_line s)"
  by (auto simp: persistable_def schedule_line_def bool_to_string_def int_to_string_no_newline)

lemma split_schedule_line:
  assumes "persistable s"
  shows "split_by (\<lambda>x. x = CHR '','') (schedule_line s) =
           [source_dir s, dest_dir s, int_to_string (period_hours s), skip_file_exts_label s,
            skip_folders_label s, bool_to_string (use_zip s)]"
proof -
  have "split_by (\<lambda>x. x = CHR '','') (bool_to_string (use_zip s)) = [bool_to_string (use_zip s)]"
    by (cases "use_zip s") (simp_all add: bool_to_string_def)
  with assms show ?thesis
    by (simp add: schedule_line_def persistable_def split_by_append_sep split_comma_no_sep
        int_to_string_no_comma)
qed

lemma parse_schedule_line:
  "persistable s \<Longrightarrow>
     parse_record (split_by (\<lambda>x. x = CHR '','') (trim_end (schedule_line s @ [CHR 0x0A]))) now
       = s\<lparr>last_time := now, is_running := False\<rparr>"
  by (simp add: schedule_line_trim_end split_schedule_line parse_record_def field_def
      schedule_new_def persistable_def parse_i32_int_to_string)

lemma load_records_lines:
  "list_all persistable ss \<Longrightarrow>
     load_records (length ss) (concat (map (\<lambda>s. schedule_line s @ [CHR 0x0A]) ss) @ rest) now
       = map (\<lambda>s. s\<lparr>last_time := now, is_running := False\<rparr>) ss"
proof (induction ss)
  case Nil
  then show ?case by simp
next
  case (Cons s ss)
  then have p: "persistable s" and ps: "list_all persistable ss" by simp_all
  have rl: "read_line (schedule_line s @ CHR 0x0A # (concat (map (\<lambda>s. schedule_line s @ [CHR 0x0A]) ss) @ rest))
            = (schedule_line s @ [CHR 0x0A], concat (map (\<lambda>s. schedule_line s @ [CHR 0x0A]) ss) @ rest)"
    using read_line_newline schedule_line_no_newline [OF p] by blast
  have "3 \<le> length (split_by (\<lambda>x. x = CHR '','') (trim_end (schedule_line s @ [CHR 0x0A])))"
    using p by (simp add: schedule_line_trim_end split_schedule_line)
  with rl Cons.IH [OF ps] parse_schedule_line [OF p] show ?case by simp
qed

lemma trim_digits_newline:
  "trim (nat_to_string n @ [CHR 0x0A]) = nat_to_string n"
proof -
  have nws: "\<forall>c\<in>set (nat_to_string n). \<not> is_whitespace c"
    using nat_to_string_digits by (fastforce simp: is_digit_def is_whitespace_def)
  obtain c cs where cs: "nat_to_string n = c # cs" by (cases "nat_to_string n") auto
  have "dropWhile is_whitespace (nat_to_string n @ [CHR 0x0A]) = nat_to_string n @ [CHR 0x0A]"
    using nws cs by simp
  moreover have "dropWhile is_whitespace (rev (nat_to_string n)) = rev (nat_to_string n)"
    using nws by (simp add: dropWhile_no_match)
  ultimately show ?thesis by (simp add: trim_def is_whitespace_def)
qed

lemma parse_usize_nat_to_string: "n \<le> usize_max \<Longrightarrow> parse_usize (nat_to_string n) = Some n"
proof -
  assume le: "n \<le> usize_max"
  obtain c cs where cs: "nat_to_string n = c # cs" by (cases "nat_to_string n") auto
  then have "is_digit c" using nat_to_string_hd_digit [of n] by simp
  then have "c \<noteq> CHR ''+'' \<and> c \<noteq> CHR ''-''" by (rule digit_not_sign)
  with cs le parse_digits_nat_to_string [of n] show ?thesis by (simp add: parse_usize_def)
qed

lemma save_data_wf: "fs_wf fs \<Longrightarrow> fs_wf (save_data ini st fs)"
proof -
  assume w: "fs_wf fs"
  have "fs_wf (case create_dir_all (butlast p) fs of Inl _ \<Rightarrow> fs | Inr f \<Rightarrow> f)" for p
    using w create_dir_all_fs_wf by (auto split: sum.split)
  then show ?thesis using w write_file_wf by (auto simp: save_data_def Let_def split: option.split sum.split)
qed

lemma load_content_save_content:
  assumes "list_all persistable ss" and "length ss \<le> usize_max"
  shows "load_content (save_content ss) now = map (\<lambda>s. s\<lparr>last_time := now, is_running := False\<rparr>) ss"
proof -
  have nl: "CHR 0x0A \<notin> set (nat_to_string (length ss))" by (rule nat_to_string_no_newline)
  have "read_line (save_content ss) =
          (''Count'' @ [CHR 0x0A], nat_to_string (length ss) @ CHR 0x0A # concat (map (\<lambda>s. schedule_line s @ [CHR 0x0A]) ss))"
    using read_line_newline [of "''Count''"] by (simp add: save_content_def)
  moreover have "read_line (nat_to_string (length ss) @ CHR 0x0A # concat (map (\<lambda>s. schedule_line s @ [CHR 0x0A]) ss))
      = (nat_to_string (length ss) @ [CHR 0x0A], concat (map (\<lambda>s. schedule_line s @ [CHR 0x0A]) ss))"
    using read_line_newline [OF nl] by blast
  ultimately show ?thesis
    using load_records_lines [OF assms(1), of "[]"] assms(2)
    by (simp add: load_content_def trim_digits_newline parse_usize_nat_to_string)
qed

lemma load_content_one_line:
  assumes "CHR 0x0A \<notin> set line" and "trim_end (line @ [CHR 0x0A]) = line"
    and "3 \<le> length (split_by (\<lambda>x. x = CHR '','') line)"
  shows "load_content (''Count'' @ [CHR 0x0A] @ ''1'' @ [CHR 0x0A] @ line @ [CHR 0x0A]) now
           = [parse_record (split_by (\<lambda>x. x = CHR '','') line) now]"
proof -
  have r1: "read_line (''Count'' @ [CHR 0x0A] @ ''1'' @ [CHR 0x0A] @ line @ [CHR 0x0A])
            = (''Count'' @ [CHR 0x0A], ''1'' @ [CHR 0x0A] @ line @ [CHR 0x0A])"
    using read_line_newline [of "''Count''"] by simp
  have r2: "read_line (''1'' @ [CHR 0x0A] @ line @ [CHR 0x0A]) = (''1'' @ [CHR 0x0A], line @ [CHR 0x0A])"
    using read_line_newline [of "''1''"] by simp
  have r3: "read_line (line @ [CHR 0x0A]) = (line @ [CHR 0x0A], [])"
    using read_line_newline [OF assms(1), of "[]"] by simp
  have t: "parse_usize (trim (''1'' @ [CHR 0x0A])) = Some 1"
    using trim_digits_newline [of 1] parse_usize_nat_to_string [of 1]
    by (simp add: usize_max_def nat_to_string_one)
  show ?thesis using r1 r2 r3 t assms(2,3) by (simp add: load_content_def)
qed

text \<open>What the two ends of the file see: \<open>load_data\<close> reads a readable file at the path,
  and \<open>save_data\<close> overwrites an existing file there (its directory exists).\<close>

lemma load_data_file:
  "lookup fs p = Some (File c True) \<Longrightarrow>
     schedules (load_data (Some p) now fs st) = schedules st @ load_content c now"
  by (simp add: load_data_def log_def Let_def)

lemma save_data_file:
  assumes "lookup fs p = Some (File c r)" and "p \<noteq> []"
  shows "lookup (save_data (Some p) st fs) p = Some (File (save_content (schedules st)) True)"
proof -
  obtain es rd where "lookup fs (butlast p) = Some (Dir es rd)"
    using assms by (rule lookup_file_parent)
  then have "create_dir_all (butlast p) fs = Inr fs" by (simp add: create_dir_all_existing)
  moreover obtain fs' where "write_file p (save_content (schedules st)) fs = Inr fs'"
    and "lookup fs' p = Some (File (save_content (schedules st)) True)"
    using assms by (rule write_file_over_file)
  ultimately show ?thesis by (simp add: save_data_def)
qed

section \<open>Properties\<close>

text \<open>C4: Round trip of the job file: loading what \<open>save_data\<close> wrote gives back every
  job with its source, destination, period, skip labels and zip flag, in order, not running
  and stamped with the load time, provided no text field holds a comma or a line break.\<close>

theorem load_save_roundtrip:
  assumes "list_all persistable ss" and "length ss \<le> usize_max"
  shows "load_content (save_content ss) now = map (\<lambda>s. s\<lparr>last_time := now, is_running := False\<rparr>) ss"
  using assms by (rule load_content_save_content)

theorem load_save_roundtrip_witness:
  "load_content (save_content [schedule_new ''/home/u/docs'' ''/bk/docs'' 12 ''*.log *.tmp'' ''.git'' True 5])
      100
   = [schedule_new ''/home/u/docs'' ''/bk/docs'' 12 ''*.log *.tmp'' ''.git'' True 100]"
proof -
  let ?s = "schedule_new ''/home/u/docs'' ''/bk/docs'' 12 ''*.log *.tmp'' ''.git'' True 5"
  have h: "list_all persistable [?s]" "length [?s] \<le> usize_max"
    by (simp_all add: persistable_def schedule_new_def i32_min_def i32_max_def usize_max_def)
  show ?thesis using load_save_roundtrip [OF h, of 100] by (simp add: schedule_new_def)
qed

text \<open>C31: The file format has no escaping: a comma in a source path shifts every later
  field, so a saved job comes back with a different source, the second half of the path
  as destination, its period text as the extension label and its extension label as the
  folder label.\<close>

theorem load_save_comma_breaks:
  assumes "source_dir s = a @ CHR '','' # b" and "CHR '','' \<notin> set a" and "CHR 0x0A \<notin> set a"
    and "persistable (s\<lparr>source_dir := b\<rparr>)"
  shows "\<exists>s'. load_content (save_content [s]) now = [s'] \<and> source_dir s' = a \<and> dest_dir s' = b
           \<and> skip_file_exts_label s' = int_to_string (period_hours s)
           \<and> skip_folders_label s' = skip_file_exts_label s
           \<and> s' \<noteq> s\<lparr>last_time := now, is_running := False\<rparr>"
proof -
  let ?t = "s\<lparr>source_dir := b\<rparr>"
  have sl: "schedule_line s = a @ CHR '','' # schedule_line ?t"
    using assms(1) by (simp add: schedule_line_def)
  have sp: "split_by (\<lambda>x. x = CHR '','') (schedule_line s)
            = [a, b, dest_dir s, int_to_string (period_hours s), skip_file_exts_label s,
               skip_folders_label s, bool_to_string (use_zip s)]"
    using split_schedule_line [OF assms(4)] sl assms(2) by (simp add: split_by_append_sep split_comma_no_sep)
  have nl: "CHR 0x0A \<notin> set (schedule_line s)"
    using schedule_line_no_newline [OF assms(4)] sl assms(3) by simp
  have tr: "trim_end (schedule_line s @ [CHR 0x0A]) = schedule_line s"
    by (rule schedule_line_trim_end)
  have sc: "save_content [s] = ''Count'' @ [CHR 0x0A] @ ''1'' @ [CHR 0x0A] @ schedule_line s @ [CHR 0x0A]"
    by (simp add: save_content_def nat_to_string_one)
  let ?r = "parse_record (split_by (\<lambda>x. x = CHR '','') (schedule_line s)) now"
  have ld: "load_content (save_content [s]) now = [?r]"
    unfolding sc using load_content_one_line [OF nl tr] sp by simp
  have f: "source_dir ?r = a \<and> dest_dir ?r = b \<and> skip_file_exts_label ?r = int_to_string (period_hours s)
           \<and> skip_folders_label ?r = skip_file_exts_label s"
    using sp by (simp add: parse_record_def field_def schedule_new_def)
  moreover have "?r \<noteq> s\<lparr>last_time := now, is_running := False\<rparr>"
  proof
    assume "?r = s\<lparr>last_time := now, is_running := False\<rparr>"
    then have "source_dir ?r = source_dir s" by simp
    with f assms(1) show False by simp
  qed
  ultimately show ?thesis using ld by blast
qed

theorem load_save_comma_breaks_witness:
  "\<exists>s'. load_content (save_content [schedule_new ''a,b'' ''/bk'' 12 [] [] False 3]) 7 = [s']
     \<and> source_dir s' = ''a'' \<and> dest_dir s' = ''b'' \<and> skip_file_exts_label s' = ''12''"
proof -
  let ?s = "schedule_new ''a,b'' ''/bk'' 12 [] [] False 3"
  have h: "source_dir ?s = ''a'' @ CHR '','' # ''b''" "CHR '','' \<notin> set ''a''" "CHR 0x0A \<notin> set ''a''"
    "persistable (?s\<lparr>source_dir := ''b''\<rparr>)"
    by (simp_all add: schedule_new_def persistable_def i32_min_def i32_max_def)
  have "int_to_string (period_hours ?s) = ''12''" by code_simp
  with load_save_comma_breaks [OF h, of 7] show ?thesis by auto
qed

text \<open>C32: Loading does not apply the period check of \<open>action_add\<close>: any \<open>i32\<close> period
  of a stored line, 0 or a negative one included, is taken as it is.\<close>

theorem load_accepts_any_period:
  assumes "CHR '','' \<notin> set src" and "CHR 0x0A \<notin> set src"
    and "CHR '','' \<notin> set dst" and "CHR 0x0A \<notin> set dst"
    and "i32_min \<le> p" and "p \<le> i32_max"
  shows "load_content (''Count'' @ [CHR 0x0A] @ ''1'' @ [CHR 0x0A] @
            src @ CHR '','' # dst @ CHR '','' # int_to_string p @ [CHR 0x0A]) now
           = [schedule_new src dst p [] [] False now]"
proof -
  let ?l = "src @ CHR '','' # dst @ CHR '','' # int_to_string p"
  have sp: "split_by (\<lambda>x. x = CHR '','') ?l = [src, dst, int_to_string p]"
    using assms(1,3) int_to_string_no_comma [of p] by (simp add: split_by_append_sep split_comma_no_sep)
  have nl: "CHR 0x0A \<notin> set ?l" using assms(2,4) int_to_string_no_newline [of p] by simp
  obtain w c where w: "int_to_string p = w @ [c]" and "\<not> is_whitespace c"
    using int_to_string_last [of p] by (metis append_butlast_last_id)
  then have tr: "trim_end (?l @ [CHR 0x0A]) = ?l"
    by (simp add: trim_end_snoc_ws is_whitespace_def trim_end_no_ws_last flip: append_assoc append_Cons)
  show ?thesis using load_content_one_line [OF nl tr] sp assms(5,6)
    by (simp add: parse_record_def field_def parse_i32_int_to_string)
qed

theorem load_accepts_any_period_witness:
  "load_content (''Count'' @ [CHR 0x0A] @ ''1'' @ [CHR 0x0A] @ ''src,dst,0'' @ [CHR 0x0A]) 7
     = [schedule_new ''src'' ''dst'' 0 [] [] False 7]"
proof -
  have "int_to_string 0 = ''0''" by code_simp
  then show ?thesis
    using load_accepts_any_period [of "''src''" "''dst''" 0 7] by (simp add: i32_min_def i32_max_def)
qed

end
