(* ===== verification/Controller.thy ===== *)
theory Controller
  imports Backup Persist
begin

text \<open>
  The controller of \<open>main.rs\<close>: the handlers of the buttons (\<open>action_add\<close>,
  \<open>action_edit\<close>, \<open>action_delete\<close>, \<open>action_run_now\<close>), the click on a table row, and
  \<open>tick\<close>, which drains the channel and, once a second, scans the jobs and starts the due
  ones with \<open>spawn_backup\<close>. Every handler takes the controller state and the filesystem
  (for \<open>Path::exists\<close>, \<open>create_dir_all\<close> and \<open>save_data\<close>) and returns them updated.
  \<open>spawn_backup\<close> returns the worker it starts: the job's index and the clone of the job
  the thread runs on; the run itself is \<open>execute_backup\<close>, and the coordinator theory
  puts the two together. The environment is \<open>home\<close> (\<open>dirs_next::home_dir()\<close>),
  \<open>ini\<close> (\<open>ini_path()\<close>), the wall-clock time \<open>now\<close> and the monotonic time \<open>inst\<close>;
  one tick happens at one instant. \<open>action_edit\<close> indexes the job list without a bounds
  check, so it returns \<open>None\<close> where the Rust code panics.
\<close>

record worker =
  w_idx :: nat
  w_job :: schedule

definition parse_period :: "string \<Rightarrow> int" where
  "parse_period s = (case parse_i32 (trim s) of Some p \<Rightarrow> if 1 \<le> p then p else 24 | None \<Rightarrow> 24)"

section \<open>Handlers\<close>

definition action_add ::
  "string option \<Rightarrow> path option \<Rightarrow> timestamp \<Rightarrow> app_state \<Rightarrow> node \<Rightarrow> app_state \<times> node" where
  "action_add home ini now st fs =
     (let period = parse_period (input_period_hours st) in
      if trim (input_source_dir st) = [] then (log LSourceEmpty st, fs)
      else if \<not> path_exists fs (input_source_dir st) then (log LSourceMissing st, fs)
      else if trim (input_dest_dir st) = [] then (log LDestEmpty st, fs)
      else (case ensure_dir (input_dest_dir st) fs of
              Inl e \<Rightarrow> (log (LCreateDestFailed e) st, fs)
            | Inr fs1 \<Rightarrow>
                (let sched = schedule_new (input_source_dir st) (input_dest_dir st) period
                               (label_skip_files st) (label_skip_folders st) (input_use_zip st) now;
                     st1 = st\<lparr>schedules := schedules st @ [sched],
                              selected_index := Some (length (schedules st))\<rparr>
                 in (clear_inputs home st1, save_data ini st1 fs1))))"

text \<open>The fields \<open>action_edit\<close> overwrites in the selected job (the period is parsed
  before the checks in the code; parsing has no effect, so the order is immaterial).\<close>

definition edit_fields :: "app_state \<Rightarrow> schedule \<Rightarrow> schedule" where
  "edit_fields st s =
     s\<lparr>source_dir := input_source_dir st, dest_dir := input_dest_dir st,
        period_hours := parse_period (input_period_hours st), skip_file_exts_label := label_skip_files st,
        skip_folders_label := label_skip_folders st, use_zip := input_use_zip st\<rparr>"

definition action_edit ::
  "string option \<Rightarrow> path option \<Rightarrow> app_state \<Rightarrow> node \<Rightarrow> (app_state \<times> node) option" where
  "action_edit home ini st fs =
     (case selected_index st of
        None \<Rightarrow> Some (log LSelectToEdit st, fs)
      | Some idx \<Rightarrow>
          (if trim (input_source_dir st) = [] \<or> \<not> path_exists fs (input_source_dir st)
           then Some (log LInvalidSource st, fs)
           else if trim (input_dest_dir st) = [] then Some (log LInvalidDest st, fs)
           else (case ensure_dir (input_dest_dir st) fs of
                   Inl e \<Rightarrow> Some (log (LCreateDestFailed e) st, fs)
                 | Inr fs1 \<Rightarrow>
                     if length (schedules st) \<le> idx then None
                     else (let st1 = st\<lparr>schedules := (schedules st)[idx := edit_fields st (schedules st ! idx)]\<rparr>
                           in Some (clear_inputs home st1, save_data ini st1 fs1)))))"

definition remove_nth :: "nat \<Rightarrow> 'a list \<Rightarrow> 'a list" where
  "remove_nth i xs = take i xs @ drop (Suc i) xs"

definition action_delete :: "path option \<Rightarrow> app_state \<Rightarrow> node \<Rightarrow> app_state \<times> node" where
  "action_delete ini st fs =
     (case selected_index st of
        None \<Rightarrow> (log LSelectToDelete st, fs)
      | Some idx \<Rightarrow>
          if idx < length (schedules st)
          then (let st1 = st\<lparr>schedules := remove_nth idx (schedules st), selected_index := None\<rparr>
                in (st1, save_data ini st1 fs))
          else (st, fs))"

definition spawn_backup :: "nat \<Rightarrow> app_state \<Rightarrow> app_state \<times> worker list" where
  "spawn_backup idx st =
     (if length (schedules st) \<le> idx then (st, [])
      else (let s = (schedules st ! idx)\<lparr>is_running := True\<rparr>;
                st1 = st\<lparr>schedules := (schedules st)[idx := s]\<rparr>
            in (log (LBackupStarted (source_dir s)) st1, [\<lparr>w_idx = idx, w_job = s\<rparr>])))"

definition action_run_now :: "app_state \<Rightarrow> app_state \<times> worker list" where
  "action_run_now st =
     (case selected_index st of
        None \<Rightarrow> (log LSelectToRun st, [])
      | Some idx \<Rightarrow>
          if length (schedules st) \<le> idx then (st, [])
          else if is_running (schedules st ! idx) then (log LAlreadyRunning st, [])
          else spawn_backup idx st)"

text \<open>A click on row \<open>idx\<close> of the table (the table offers the rows of the job list).\<close>

definition click_row :: "nat \<Rightarrow> app_state \<Rightarrow> app_state" where
  "click_row idx st =
     (if idx < length (schedules st)
      then fill_inputs_from idx (st\<lparr>selected_index := Some idx\<rparr>) else st)"

section \<open>The tick\<close>

text \<open>One received message.\<close>

fun receive :: "timestamp \<Rightarrow> app_msg \<Rightarrow> app_state \<Rightarrow> app_state" where
  "receive now (Log l) st = log l st"
| "receive now (BackupFinished idx ok) st =
     log (if ok then LBackupCompleted else LBackupFailed)
       (if idx < length (schedules st)
        then st\<lparr>schedules := (schedules st)[idx := (schedules st ! idx)\<lparr>is_running := False, last_time := now\<rparr>]\<rparr>
        else st)"

definition drain :: "timestamp \<Rightarrow> app_state \<Rightarrow> app_state" where
  "drain now st = fold (receive now) (rx st) (st\<lparr>rx := []\<rparr>)"

text \<open>The due test of the scan: not running, and whole hours elapsed (Rust's truncating
  division) at least the period.\<close>

definition due :: "timestamp \<Rightarrow> schedule \<Rightarrow> bool" where
  "due now s \<longleftrightarrow> \<not> is_running s \<and> period_hours s \<le> (now - last_time s) sdiv 3600"

fun scan :: "timestamp \<Rightarrow> nat list \<Rightarrow> app_state \<Rightarrow> app_state \<times> worker list" where
  "scan now [] st = (st, [])"
| "scan now (idx # idxs) st =
     (let (st1, ws1) = (if due now (schedules st ! idx) then spawn_backup idx st else (st, []));
          (st2, ws2) = scan now idxs st1
      in (st2, ws1 @ ws2))"

definition tick :: "timestamp \<Rightarrow> instant \<Rightarrow> app_state \<Rightarrow> app_state \<times> worker list" where
  "tick now inst st =
     (let st1 = drain now st in
      if 1 \<le> inst - last_tick st1
      then (case scan now [0..<length (schedules st1)] st1 of (st2, ws) \<Rightarrow> (st2\<lparr>last_tick := inst\<rparr>, ws))
      else (st1, []))"

text \<open>The scan as a batch operation: every due job of the list, judged on the list as it
  was before the scan, is marked running, logged and handed to a worker, in index order.\<close>

definition scan_spec :: "timestamp \<Rightarrow> app_state \<Rightarrow> app_state \<times> worker list" where
  "scan_spec now st =
     (let ds = filter (\<lambda>i. due now (schedules st ! i)) [0..<length (schedules st)] in
      (st\<lparr>schedules := map (\<lambda>s. if due now s then s\<lparr>is_running := True\<rparr> else s) (schedules st),
          logs := logs st @ map (\<lambda>i. LBackupStarted (source_dir (schedules st ! i))) ds\<rparr>,
       map (\<lambda>i. \<lparr>w_idx = i, w_job = (schedules st ! i)\<lparr>is_running := True\<rparr>\<rparr>) ds))"

text \<open>The selection always names a row of the table, or nothing.\<close>

definition sel_ok :: "app_state \<Rightarrow> bool" where
  "sel_ok st \<longleftrightarrow> (case selected_index st of None \<Rightarrow> True | Some i \<Rightarrow> i < length (schedules st))"

definition example_state :: app_state where
  "example_state = (app_init None 0)\<lparr>schedules := [spec_example_job], selected_index := Some 0,
     input_source_dir := ''src'', input_dest_dir := ''src'', input_period_hours := ''abc''\<rparr>"

text \<open>Every job's period is an hour count the \<open>i32\<close> field holds and the scheduler can
  wait for: between 1 and \<open>i32::MAX\<close>.\<close>

definition periods_ok :: "app_state \<Rightarrow> bool" where
  "periods_ok st \<longleftrightarrow> list_all (\<lambda>s. 1 \<le> period_hours s \<and> period_hours s \<le> i32_max) (schedules st)"

section \<open>Lemmas\<close>

lemma spawn_backup_in_range:
  "idx < length (schedules st) \<Longrightarrow> spawn_backup idx st =
     (log (LBackupStarted (source_dir (schedules st ! idx)))
        (st\<lparr>schedules := (schedules st)[idx := (schedules st ! idx)\<lparr>is_running := True\<rparr>]\<rparr>),
      [\<lparr>w_idx = idx, w_job = (schedules st ! idx)\<lparr>is_running := True\<rparr>\<rparr>])"
  by (simp add: spawn_backup_def Let_def)

lemma scan_Cons_split:
  "scan now (j # idxs) st =
     (fst (scan now idxs (fst (if due now (schedules st ! j) then spawn_backup j st else (st, [])))),
      snd (if due now (schedules st ! j) then spawn_backup j st else (st, []))
        @ snd (scan now idxs (fst (if due now (schedules st ! j) then spawn_backup j st else (st, [])))))"
  by (simp split: prod.split)

lemma scan_eq:
  assumes "distinct idxs" and "\<forall>i\<in>set idxs. i < length (schedules st)"
  shows "scan now idxs st =
    (st\<lparr>schedules := map (\<lambda>i. if i \<in> set idxs \<and> due now (schedules st ! i)
                               then (schedules st ! i)\<lparr>is_running := True\<rparr> else schedules st ! i)
                        [0..<length (schedules st)],
        logs := logs st @ map (\<lambda>i. LBackupStarted (source_dir (schedules st ! i)))
                  (filter (\<lambda>i. due now (schedules st ! i)) idxs)\<rparr>,
     map (\<lambda>i. \<lparr>w_idx = i, w_job = (schedules st ! i)\<lparr>is_running := True\<rparr>\<rparr>)
       (filter (\<lambda>i. due now (schedules st ! i)) idxs))"
  using assms
proof (induction idxs arbitrary: st)
  case Nil
  have "map (\<lambda>i. schedules st ! i) [0..<length (schedules st)] = schedules st"
    by (simp add: map_nth)
  then show ?case by simp
next
  case (Cons j idxs)
  define p where "p = (if due now (schedules st ! j) then spawn_backup j st else (st, []))"
  have j: "j < length (schedules st)" and nj: "j \<notin> set idxs" and d: "distinct idxs"
    and r: "\<forall>i\<in>set idxs. i < length (schedules st)" using Cons.prems by auto
  have sc: "scan now (j # idxs) st = (fst (scan now idxs (fst p)), snd p @ snd (scan now idxs (fst p)))"
    unfolding p_def by (rule scan_Cons_split)
  have sch1: "schedules (fst p) = (if due now (schedules st ! j)
      then (schedules st)[j := (schedules st ! j)\<lparr>is_running := True\<rparr>] else schedules st)"
    and w1: "snd p = (if due now (schedules st ! j)
      then [\<lparr>w_idx = j, w_job = (schedules st ! j)\<lparr>is_running := True\<rparr>\<rparr>] else [])"
    and st1: "fst p = (if due now (schedules st ! j)
      then st\<lparr>schedules := (schedules st)[j := (schedules st ! j)\<lparr>is_running := True\<rparr>],
              logs := logs st @ [LBackupStarted (source_dir (schedules st ! j))]\<rparr> else st)"
    by (simp_all add: p_def spawn_backup_in_range [OF j] log_def)
  have len1: "length (schedules (fst p)) = length (schedules st)" by (simp add: sch1)
  have same: "\<And>i. i \<in> set idxs \<Longrightarrow> schedules (fst p) ! i = schedules st ! i"
    using nj sch1 by (metis nth_list_update_neq)
  have IH: "scan now idxs (fst p) =
    ((fst p)\<lparr>schedules := map (\<lambda>i. if i \<in> set idxs \<and> due now (schedules (fst p) ! i)
                               then (schedules (fst p) ! i)\<lparr>is_running := True\<rparr> else schedules (fst p) ! i)
                        [0..<length (schedules (fst p))],
        logs := logs (fst p) @ map (\<lambda>i. LBackupStarted (source_dir (schedules (fst p) ! i)))
                  (filter (\<lambda>i. due now (schedules (fst p) ! i)) idxs)\<rparr>,
     map (\<lambda>i. \<lparr>w_idx = i, w_job = (schedules (fst p) ! i)\<lparr>is_running := True\<rparr>\<rparr>)
       (filter (\<lambda>i. due now (schedules (fst p) ! i)) idxs))"
    using Cons.IH [OF d] r len1 by simp
  have f: "filter (\<lambda>i. due now (schedules (fst p) ! i)) idxs = filter (\<lambda>i. due now (schedules st ! i)) idxs"
    using same by (simp cong: filter_cong)
  have m1: "map (\<lambda>i. LBackupStarted (source_dir (schedules (fst p) ! i))) (filter (\<lambda>i. due now (schedules st ! i)) idxs)
          = map (\<lambda>i. LBackupStarted (source_dir (schedules st ! i))) (filter (\<lambda>i. due now (schedules st ! i)) idxs)"
    and m2: "map (\<lambda>i. \<lparr>w_idx = i, w_job = (schedules (fst p) ! i)\<lparr>is_running := True\<rparr>\<rparr>) (filter (\<lambda>i. due now (schedules st ! i)) idxs)
          = map (\<lambda>i. \<lparr>w_idx = i, w_job = (schedules st ! i)\<lparr>is_running := True\<rparr>\<rparr>) (filter (\<lambda>i. due now (schedules st ! i)) idxs)"
    using same by (simp_all cong: map_cong)
  have m3: "map (\<lambda>i. if i \<in> set idxs \<and> due now (schedules (fst p) ! i)
                   then (schedules (fst p) ! i)\<lparr>is_running := True\<rparr> else schedules (fst p) ! i)
              [0..<length (schedules st)]
          = map (\<lambda>i. if i \<in> set (j # idxs) \<and> due now (schedules st ! i)
                   then (schedules st ! i)\<lparr>is_running := True\<rparr> else schedules st ! i)
              [0..<length (schedules st)]"
  proof (rule map_cong [OF refl])
    fix i assume "i \<in> set [0..<length (schedules st)]"
    then show "(if i \<in> set idxs \<and> due now (schedules (fst p) ! i)
                then (schedules (fst p) ! i)\<lparr>is_running := True\<rparr> else schedules (fst p) ! i)
             = (if i \<in> set (j # idxs) \<and> due now (schedules st ! i)
                then (schedules st ! i)\<lparr>is_running := True\<rparr> else schedules st ! i)"
      using nj same [of i] sch1 by (cases "i = j") auto
  qed
  show ?case
    by (simp only: sc IH f m1 m2 len1 m3) (auto simp: w1 st1 Let_def)
qed

lemma due_iff_hours:
  "1 \<le> period_hours s \<Longrightarrow>
     due now s \<longleftrightarrow> \<not> is_running s \<and> last_time s + 3600 * period_hours s \<le> now"
  using hours_ge_iff [of "period_hours s" "now - last_time s"] by (auto simp: due_def)

lemma receive_frame [simp]:
  "length (schedules (receive now m st)) = length (schedules st)"
  "selected_index (receive now m st) = selected_index st"
  "last_tick (receive now m st) = last_tick st"
  "rx (receive now m st) = rx st"
  by (cases m; simp)+

lemma fold_receive_frame:
  "length (schedules (fold (receive now) ms st)) = length (schedules st)
   \<and> selected_index (fold (receive now) ms st) = selected_index st
   \<and> last_tick (fold (receive now) ms st) = last_tick st
   \<and> rx (fold (receive now) ms st) = rx st"
  by (induction ms arbitrary: st) simp_all

lemma drain_frame [simp]:
  "length (schedules (drain now st)) = length (schedules st)"
  "selected_index (drain now st) = selected_index st"
  "last_tick (drain now st) = last_tick st"
  "rx (drain now st) = []"
  using fold_receive_frame [of now "rx st" "st\<lparr>rx := []\<rparr>"] by (simp_all add: drain_def)

lemma scan_all:
  assumes "scan now [0..<length (schedules st)] st = (st', ws)"
  shows scan_all_length: "length (schedules st') = length (schedules st)"
    and scan_all_nth: "i < length (schedules st) \<Longrightarrow> schedules st' ! i =
          (if due now (schedules st ! i) then (schedules st ! i)\<lparr>is_running := True\<rparr> else schedules st ! i)"
    and scan_all_workers: "ws = map (\<lambda>i. \<lparr>w_idx = i, w_job = (schedules st ! i)\<lparr>is_running := True\<rparr>\<rparr>)
            (filter (\<lambda>i. due now (schedules st ! i)) [0..<length (schedules st)])"
    and scan_all_selected: "selected_index st' = selected_index st"
    and scan_all_rx: "rx st' = rx st"
  using scan_eq [of "[0..<length (schedules st)]" st now] assms by auto

lemma tick_scans:
  assumes "1 \<le> inst - last_tick st"
  obtains st' where "scan now [0..<length (schedules (drain now st))] (drain now st) = (st', snd (tick now inst st))"
    and "fst (tick now inst st) = st'\<lparr>last_tick := inst\<rparr>"
proof -
  obtain st' ws where sc: "scan now [0..<length (schedules (drain now st))] (drain now st) = (st', ws)"
    by force
  then have "tick now inst st = (st'\<lparr>last_tick := inst\<rparr>, ws)" using assms by (simp add: tick_def)
  then show ?thesis using that sc by simp
qed

lemma tick_idle:
  "inst - last_tick st < 1 \<Longrightarrow> tick now inst st = (drain now st, [])"
  by (simp add: tick_def)

lemma sel_ok_log [simp]: "sel_ok (log l st) = sel_ok st"
  by (simp add: sel_ok_def split: option.split)

lemma sel_ok_cong:
  "selected_index st' = selected_index st \<Longrightarrow> length (schedules st') = length (schedules st)
   \<Longrightarrow> sel_ok st' = sel_ok st"
  by (simp add: sel_ok_def split: option.split)

lemma sel_ok_simps [simp]:
  "sel_ok (clear_inputs h st) = sel_ok st"
  "sel_ok (fill_inputs_from i st) = sel_ok st"
  "sel_ok (st\<lparr>last_tick := t\<rparr>) = sel_ok st"
  "sel_ok (st\<lparr>selected_index := None\<rparr>)"
  "sel_ok (st\<lparr>selected_index := Some i\<rparr>) = (i < length (schedules st))"
  "sel_ok (st\<lparr>schedules := (schedules st)[j := x]\<rparr>) = sel_ok st"
  "sel_ok (st\<lparr>schedules := schedules st @ [x], selected_index := Some (length (schedules st))\<rparr>)"
  by (simp_all add: sel_ok_def split: option.split)

lemma filter_upt_single:
  "i < n \<Longrightarrow> filter (\<lambda>j. P j \<and> j = i) [0..<n] = (if P i then [i] else [])"
  by (induction n) (auto simp: less_Suc_eq)

lemma spawn_backup_sel_ok [simp]: "sel_ok (fst (spawn_backup i st)) = sel_ok st"
  by (simp add: spawn_backup_def Let_def)

lemma drain_sel_ok [simp]: "sel_ok (drain now st) = sel_ok st"
  by (rule sel_ok_cong) simp_all

lemma tick_sel_ok: "sel_ok (fst (tick now inst st)) = sel_ok st"
proof (cases "1 \<le> inst - last_tick st")
  case True
  then obtain st' where sc: "scan now [0..<length (schedules (drain now st))] (drain now st) = (st', snd (tick now inst st))"
    and t: "fst (tick now inst st) = st'\<lparr>last_tick := inst\<rparr>" by (rule tick_scans)
  have "sel_ok st' = sel_ok (drain now st)"
    by (rule sel_ok_cong) (simp_all add: scan_all_length [OF sc] scan_all_selected [OF sc])
  then show ?thesis by (simp add: t)
next
  case False
  then show ?thesis by (simp add: tick_idle)
qed

text \<open>The shape of each handler's effect on the job list and the queue: the lists the
  coordinator's invariant is about.\<close>

lemma action_add_shape:
  "rx (fst (action_add home ini now st fs)) = rx st
   \<and> (schedules (fst (action_add home ini now st fs)) = schedules st
      \<or> (\<exists>x. schedules (fst (action_add home ini now st fs)) = schedules st @ [x] \<and> \<not> is_running x))"
  by (simp add: action_add_def Let_def schedule_new_def split: sum.split)

lemma edit_fields_running [simp]: "is_running (edit_fields st s) = is_running s"
  by (simp add: edit_fields_def)

lemma action_edit_shape:
  "action_edit home ini st fs = Some r \<Longrightarrow> rx (fst r) = rx st
   \<and> (schedules (fst r) = schedules st
      \<or> (\<exists>j. selected_index st = Some j \<and> j < length (schedules st)
              \<and> schedules (fst r) = (schedules st)[j := edit_fields st (schedules st ! j)]))"
  by (auto simp: action_edit_def Let_def split: option.splits sum.splits if_splits)

lemma action_delete_shape:
  "rx (fst (action_delete ini st fs)) = rx st
   \<and> (schedules (fst (action_delete ini st fs)) = schedules st
      \<or> (\<exists>j. schedules (fst (action_delete ini st fs)) = remove_nth j (schedules st)))"
  by (auto simp: action_delete_def Let_def split: option.split)

lemma action_run_now_shape:
  "rx (fst (action_run_now st)) = rx st
   \<and> (snd (action_run_now st) = [] \<and> schedules (fst (action_run_now st)) = schedules st
      \<or> (\<exists>j. selected_index st = Some j \<and> j < length (schedules st) \<and> \<not> is_running (schedules st ! j)
             \<and> action_run_now st = spawn_backup j st))"
  by (auto simp: action_run_now_def spawn_backup_def Let_def split: option.split)

lemma action_add_sel_ok: "sel_ok st \<Longrightarrow> sel_ok (fst (action_add home ini now st fs))"
  by (simp add: action_add_def Let_def split: sum.split)

lemma action_edit_sel_ok: "sel_ok st \<Longrightarrow> action_edit home ini st fs = Some r \<Longrightarrow> sel_ok (fst r)"
  by (auto simp: action_edit_def Let_def split: option.splits sum.splits if_splits)

lemma action_delete_sel_ok: "sel_ok st \<Longrightarrow> sel_ok (fst (action_delete ini st fs))"
  by (simp add: action_delete_def Let_def split: option.split)

lemma action_run_now_sel_ok: "sel_ok st \<Longrightarrow> sel_ok (fst (action_run_now st))"
  by (simp add: action_run_now_def split: option.split)

lemma click_row_sel_ok: "sel_ok st \<Longrightarrow> sel_ok (click_row i st)"
  by (simp add: click_row_def)

lemmas handler_sel_ok = action_add_sel_ok action_edit_sel_ok action_delete_sel_ok
  action_run_now_sel_ok click_row_sel_ok

subsection \<open>Periods\<close>

lemma parse_period_range: "1 \<le> parse_period t \<and> parse_period t \<le> i32_max"
  by (auto simp: parse_period_def parse_i32_def Let_def i32_max_def split: option.splits)

lemma receive_periods [simp]:
  "map period_hours (schedules (receive now m st)) = map period_hours (schedules st)"
  by (cases m) (auto intro!: nth_equalityI simp: nth_list_update)

lemma drain_periods:
  "map period_hours (schedules (drain now st)) = map period_hours (schedules st)"
proof -
  have "map period_hours (schedules (fold (receive now) ms st')) = map period_hours (schedules st')" for ms st'
    by (induction ms arbitrary: st') simp_all
  then show ?thesis by (simp add: drain_def)
qed

lemma tick_periods:
  "map period_hours (schedules (fst (tick now inst st))) = map period_hours (schedules st)"
proof (cases "1 \<le> inst - last_tick st")
  case True
  then obtain st' where sc: "scan now [0..<length (schedules (drain now st))] (drain now st) = (st', snd (tick now inst st))"
    and t: "fst (tick now inst st) = st'\<lparr>last_tick := inst\<rparr>" by (rule tick_scans)
  have "map period_hours (schedules st') = map period_hours (schedules (drain now st))"
    by (rule nth_equalityI) (simp_all add: scan_all_length [OF sc] scan_all_nth [OF sc])
  then show ?thesis by (simp add: t drain_periods)
next
  case False
  then show ?thesis by (simp add: tick_idle drain_periods)
qed

lemma list_all_list_update: "list_all P xs \<Longrightarrow> P x \<Longrightarrow> list_all P (xs[i := x])"
  using set_update_subset_insert [of xs i x] by (auto simp: list_all_iff)

lemma list_all_remove_nth: "list_all P xs \<Longrightarrow> list_all P (remove_nth i xs)"
  using set_take_subset [of i xs] set_drop_subset [of "Suc i" xs] by (auto simp: remove_nth_def list_all_iff)

lemma periods_ok_spawn: "periods_ok st \<Longrightarrow> periods_ok (fst (spawn_backup i st))"
proof -
  assume a: "periods_ok st"
  have "i < length (schedules st) \<Longrightarrow> 1 \<le> period_hours (schedules st ! i) \<and> period_hours (schedules st ! i) \<le> i32_max"
    using a by (simp add: periods_ok_def list_all_length)
  with a show ?thesis
    by (simp add: spawn_backup_def Let_def periods_ok_def list_all_list_update)
qed

lemma periods_ok_map:
  "periods_ok st = list_all (\<lambda>p. 1 \<le> p \<and> p \<le> i32_max) (map period_hours (schedules st))"
  by (simp add: periods_ok_def list.pred_map comp_def)

lemma periods_ok_periods: "map period_hours (schedules st') = map period_hours (schedules st) \<Longrightarrow> periods_ok st' = periods_ok st"
  by (simp only: periods_ok_map)

lemma periods_ok_log [simp]: "periods_ok (log l st) = periods_ok st"
  and periods_ok_clear_inputs [simp]: "periods_ok (clear_inputs h st) = periods_ok st"
  by (simp_all add: periods_ok_def)

lemma periods_ok_edit:
  "periods_ok st \<Longrightarrow> periods_ok (st\<lparr>schedules := (schedules st)[i := edit_fields st (schedules st ! i)]\<rparr>)"
  using parse_period_range [of "input_period_hours st"]
  by (simp add: periods_ok_def edit_fields_def list_all_list_update)

subsection \<open>The handlers keep the filesystem well formed\<close>

lemma action_add_wf:
  assumes "action_add home ini now st fs = (st', fs')" and "fs_wf fs"
  shows "fs_wf fs'"
proof (cases "ensure_dir (input_dest_dir st) fs")
  case (Inl e)
  then show ?thesis using assms by (auto simp: action_add_def Let_def split: if_splits)
next
  case (Inr fs1)
  then have "fs_wf fs1" using ensure_dir_wf assms(2) by blast
  then show ?thesis using assms Inr save_data_wf by (auto simp: action_add_def Let_def split: if_splits)
qed

lemma action_edit_wf:
  assumes "action_edit home ini st fs = Some r" and "fs_wf fs"
  shows "fs_wf (snd r)"
proof (cases "ensure_dir (input_dest_dir st) fs")
  case (Inl e)
  then show ?thesis using assms by (auto simp: action_edit_def Let_def split: if_splits option.splits)
next
  case (Inr fs1)
  then have "fs_wf fs1" using ensure_dir_wf assms(2) by blast
  then show ?thesis using assms Inr save_data_wf
    by (auto simp: action_edit_def Let_def split: if_splits option.splits)
qed

lemma action_delete_wf: "action_delete ini st fs = (st', fs') \<Longrightarrow> fs_wf fs \<Longrightarrow> fs_wf fs'"
  using save_data_wf by (auto simp: action_delete_def Let_def split: option.splits if_splits)

section \<open>Properties\<close>

text \<open>C2: The scheduler's due test (spec: a job is triggered at the first tick where
  \<open>now \<ge> T + P\<close> hours, never before, provided it is idle). At a tick that scans (a second has
  passed since the last scan), an idle job with period \<open>P \<ge> 1\<close> and last run \<open>T\<close>, as the
  drained state has it, gets exactly one worker when \<open>now \<ge> T + 3600 P\<close> seconds, and none
  otherwise: Rust's truncating division by 3600 never fires early.\<close>

theorem tick_starts_job_iff_elapsed:
  assumes "1 \<le> inst - last_tick st" and "i < length (schedules st)"
    and "\<not> is_running (schedules (drain now st) ! i)"
    and "1 \<le> period_hours (schedules (drain now st) ! i)"
  shows "length (filter (\<lambda>w. w_idx w = i) (snd (tick now inst st))) =
           (if last_time (schedules (drain now st) ! i) + 3600 * period_hours (schedules (drain now st) ! i) \<le> now
            then 1 else 0)"
proof -
  obtain st' where sc: "scan now [0..<length (schedules (drain now st))] (drain now st) = (st', snd (tick now inst st))"
    using tick_scans [OF assms(1)] by metis
  have "filter (\<lambda>w. w_idx w = i) (snd (tick now inst st)) =
        map (\<lambda>i. \<lparr>w_idx = i, w_job = (schedules (drain now st) ! i)\<lparr>is_running := True\<rparr>\<rparr>)
          (filter (\<lambda>j. due now (schedules (drain now st) ! j) \<and> j = i) [0..<length (schedules st)])"
    by (simp add: scan_all_workers [OF sc] filter_map comp_def)
  moreover have "due now (schedules (drain now st) ! i) \<longleftrightarrow>
      last_time (schedules (drain now st) ! i) + 3600 * period_hours (schedules (drain now st) ! i) \<le> now"
    using due_iff_hours [OF assms(4)] assms(3) by blast
  ultimately show ?thesis
    using filter_upt_single [OF assms(2), of "\<lambda>j. due now (schedules (drain now st) ! j)"] by simp
qed

theorem tick_starts_job_iff_elapsed_witness:
  "length (filter (\<lambda>w. w_idx w = 0) (snd (tick 90000 5 example_state))) = 1"
proof -
  have h: "1 \<le> 5 - last_tick example_state" "0 < length (schedules example_state)"
    "\<not> is_running (schedules (drain 90000 example_state) ! 0)"
    "1 \<le> period_hours (schedules (drain 90000 example_state) ! 0)"
    by (simp_all add: example_state_def app_init_def drain_def spec_example_job_def schedule_new_def)
  have "last_time (schedules (drain 90000 example_state) ! 0)
          + 3600 * period_hours (schedules (drain 90000 example_state) ! 0) \<le> 90000"
    by (simp add: example_state_def app_init_def drain_def spec_example_job_def schedule_new_def)
  then show ?thesis using tick_starts_job_iff_elapsed [OF h] by simp
qed

text \<open>C8: A tick never starts a job twice or restarts a running one: the workers it
  returns have distinct job indices, each names a job of the list that was idle after the
  drain, and each carries the job as the list now holds it, marked running (the clone
  the thread runs on).\<close>

theorem tick_no_double_start:
  "distinct (map w_idx (snd (tick now inst st)))
   \<and> (\<forall>w\<in>set (snd (tick now inst st)). w_idx w < length (schedules st)
        \<and> \<not> is_running (schedules (drain now st) ! w_idx w)
        \<and> w_job w = schedules (fst (tick now inst st)) ! w_idx w \<and> is_running (w_job w))"
proof (cases "1 \<le> inst - last_tick st")
  case True
  then obtain st' where sc: "scan now [0..<length (schedules (drain now st))] (drain now st) = (st', snd (tick now inst st))"
    and t: "fst (tick now inst st) = st'\<lparr>last_tick := inst\<rparr>" by (rule tick_scans)
  show ?thesis
    by (auto simp: t comp_def due_def scan_all_workers [OF sc] scan_all_nth [OF sc])
next
  case False
  then show ?thesis by (simp add: tick_idle)
qed

theorem tick_no_double_start_witness:
  "snd (tick 90000 5 example_state) = [\<lparr>w_idx = 0, w_job = spec_example_job\<lparr>is_running := True\<rparr>\<rparr>]
   \<and> \<not> is_running (schedules (drain 90000 example_state) ! 0)
   \<and> schedules (fst (tick 90000 5 example_state)) ! 0 = spec_example_job\<lparr>is_running := True\<rparr>"
proof -
  have w: "snd (tick 90000 5 example_state) = [\<lparr>w_idx = 0, w_job = spec_example_job\<lparr>is_running := True\<rparr>\<rparr>]"
    by code_simp
  have "\<forall>w\<in>set (snd (tick 90000 5 example_state)). w_idx w < length (schedules example_state)
        \<and> \<not> is_running (schedules (drain 90000 example_state) ! w_idx w)
        \<and> w_job w = schedules (fst (tick 90000 5 example_state)) ! w_idx w \<and> is_running (w_job w)"
    using tick_no_double_start [of 90000 5 example_state] by blast
  then have "\<not> is_running (schedules (drain 90000 example_state) ! 0)
      \<and> spec_example_job\<lparr>is_running := True\<rparr> = schedules (fst (tick 90000 5 example_state)) ! 0"
    unfolding w by simp
  with w show ?thesis by simp
qed

text \<open>C19: The selection invariant: every handler keeps the selected index \<open>None\<close> or
  the index of a job of the list (an added job is selected, a delete clears the selection,
  a click selects a row of the table, and the tick and a run keep the list's length).\<close>

theorem handlers_keep_selection:
  assumes "sel_ok st"
  shows "sel_ok (fst (action_add home ini now st fs))
    \<and> pred_option (\<lambda>r. sel_ok (fst r)) (action_edit home ini st fs)
    \<and> sel_ok (fst (action_delete ini st fs))
    \<and> sel_ok (fst (action_run_now st))
    \<and> sel_ok (click_row i st)
    \<and> sel_ok (fst (tick now inst st))"
  using assms by (auto simp: handler_sel_ok tick_sel_ok option.pred_set)

theorem handlers_keep_selection_witness:
  "sel_ok (fst (action_add None None 90000 example_state spec_example_fs))
   \<and> sel_ok (fst (tick 90000 5 example_state))"
proof -
  have "sel_ok example_state" by (simp add: sel_ok_def example_state_def)
  then show ?thesis using handlers_keep_selection [of example_state None None 90000 spec_example_fs _ 5] by simp
qed

text \<open>C21: \<open>action_edit\<close> indexes the job list with the selected index and no bounds
  check (\<open>self.schedules[idx]\<close>); in every state where the selection invariant holds it
  does not panic.\<close>

theorem action_edit_no_panic:
  "sel_ok st \<Longrightarrow> action_edit home ini st fs \<noteq> None"
  by (auto simp: action_edit_def sel_ok_def Let_def split: option.splits sum.splits)

theorem action_edit_no_panic_witness:
  "action_edit None None example_state spec_example_fs \<noteq> None"
  using action_edit_no_panic [of example_state] by (simp add: sel_ok_def example_state_def)

text \<open>C27: \<open>action_add\<close> does not compare the source with the destination: when both
  fields name the same existing folder, the job is added (the spec requires that a job with
  \<open>source_path = dest_path\<close> is rejected with no job created).\<close>

theorem action_add_accepts_same_dirs:
  assumes "trim (input_source_dir st) \<noteq> []" and "path_exists fs (input_source_dir st)"
    and "input_dest_dir st = input_source_dir st"
  shows "schedules (fst (action_add home ini now st fs)) = schedules st @
           [schedule_new (input_source_dir st) (input_source_dir st) (parse_period (input_period_hours st))
              (label_skip_files st) (label_skip_folders st) (input_use_zip st) now]"
  using assms by (simp add: action_add_def ensure_dir_def Let_def)

theorem action_add_accepts_same_dirs_witness:
  "schedules (fst (action_add None None 7 (example_state\<lparr>input_period_hours := ''6''\<rparr>) spec_example_fs)) =
     [spec_example_job, schedule_new ''src'' ''src'' 6 [] [] False 7]"
proof -
  let ?st = "example_state\<lparr>input_period_hours := ''6''\<rparr>"
  have h: "trim (input_source_dir ?st) \<noteq> []" "path_exists spec_example_fs (input_source_dir ?st)"
    "input_dest_dir ?st = input_source_dir ?st"
    by (simp_all add: example_state_def path_exists_def path_of_def spec_example_fs_def rust_simps)
  have "parse_period ''6'' = 6" by code_simp
  then show ?thesis using action_add_accepts_same_dirs [OF h, of None None 7]
    by (simp add: example_state_def app_init_def)
qed

text \<open>C28: An invalid period is not rejected (the spec says invalid input is rejected with
  no state change): when the directory checks pass and the period text does not parse, the
  job is added with the default period of 24 hours.\<close>

theorem action_add_invalid_period_defaults:
  assumes "trim (input_source_dir st) \<noteq> []" and "path_exists fs (input_source_dir st)"
    and "trim (input_dest_dir st) \<noteq> []" and "path_exists fs (input_dest_dir st)"
    and "parse_i32 (trim (input_period_hours st)) = None"
  shows "schedules (fst (action_add home ini now st fs)) = schedules st @
           [schedule_new (input_source_dir st) (input_dest_dir st) 24
              (label_skip_files st) (label_skip_folders st) (input_use_zip st) now]"
  using assms by (simp add: action_add_def ensure_dir_def parse_period_def Let_def)

theorem action_add_invalid_period_defaults_witness:
  "schedules (fst (action_add None None 7 example_state spec_example_fs)) =
     [spec_example_job, schedule_new ''src'' ''src'' 24 [] [] False 7]"
proof -
  have h: "trim (input_source_dir example_state) \<noteq> []"
    "path_exists spec_example_fs (input_source_dir example_state)"
    "trim (input_dest_dir example_state) \<noteq> []"
    "path_exists spec_example_fs (input_dest_dir example_state)"
    by (simp_all add: example_state_def path_exists_def path_of_def spec_example_fs_def rust_simps)
  have "parse_i32 (trim (input_period_hours example_state)) = None"
    by (simp add: example_state_def) code_simp
  from action_add_invalid_period_defaults [OF h this, of None None 7] show ?thesis
    by (simp add: example_state_def app_init_def)
qed

text \<open>C23: Validation errors change nothing but the log: when the source field is blank or
  names nothing, the destination field is blank, or the destination cannot be created,
  \<open>action_add\<close> and \<open>action_edit\<close> append exactly one log line and leave the jobs, the
  selection, the input fields and the filesystem as they were.\<close>

theorem validation_errors_only_log:
  assumes "trim (input_source_dir st) = [] \<or> \<not> path_exists fs (input_source_dir st)
    \<or> trim (input_dest_dir st) = [] \<or> isl (ensure_dir (input_dest_dir st) fs)"
  shows "(\<exists>l. action_add home ini now st fs = (log l st, fs))
    \<and> (\<exists>l. action_edit home ini st fs = Some (log l st, fs))"
  using assms
  by (auto simp: action_add_def action_edit_def Let_def split: option.split sum.split)

theorem validation_errors_only_log_witness:
  "(\<exists>l. action_add None None 7 (example_state\<lparr>input_source_dir := ''nowhere''\<rparr>) spec_example_fs
        = (log l (example_state\<lparr>input_source_dir := ''nowhere''\<rparr>), spec_example_fs))
   \<and> (\<exists>l. action_edit None None (example_state\<lparr>input_source_dir := ''nowhere''\<rparr>) spec_example_fs
        = Some (log l (example_state\<lparr>input_source_dir := ''nowhere''\<rparr>), spec_example_fs))"
proof -
  have "\<not> path_exists spec_example_fs (input_source_dir (example_state\<lparr>input_source_dir := ''nowhere''\<rparr>))"
    by (simp add: path_exists_def path_of_def spec_example_fs_def rust_simps)
  then show ?thesis using validation_errors_only_log by blast
qed

text \<open>C22: \<open>Run now\<close> starts at most one worker, only for the selected job, only when that
  job is in the list and idle, and marks it running in the list.\<close>

theorem action_run_now_guard:
  "length (snd (action_run_now st)) \<le> 1
   \<and> (\<forall>w\<in>set (snd (action_run_now st)). selected_index st = Some (w_idx w)
        \<and> w_idx w < length (schedules st) \<and> \<not> is_running (schedules st ! w_idx w)
        \<and> w_job w = schedules (fst (action_run_now st)) ! w_idx w \<and> is_running (w_job w))"
  by (auto simp: action_run_now_def spawn_backup_def Let_def split: option.split)

theorem action_run_now_guard_witness:
  "snd (action_run_now example_state) = [\<lparr>w_idx = 0, w_job = spec_example_job\<lparr>is_running := True\<rparr>\<rparr>]
   \<and> selected_index example_state = Some 0 \<and> \<not> is_running (schedules example_state ! 0)"
proof -
  have w: "snd (action_run_now example_state) = [\<lparr>w_idx = 0, w_job = spec_example_job\<lparr>is_running := True\<rparr>\<rparr>]"
    by code_simp
  have "\<forall>w\<in>set (snd (action_run_now example_state)). selected_index example_state = Some (w_idx w)
        \<and> w_idx w < length (schedules example_state) \<and> \<not> is_running (schedules example_state ! w_idx w)
        \<and> w_job w = schedules (fst (action_run_now example_state)) ! w_idx w \<and> is_running (w_job w)"
    using action_run_now_guard [of example_state] by blast
  then have "selected_index example_state = Some 0 \<and> \<not> is_running (schedules example_state ! 0)"
    unfolding w by simp
  with w show ?thesis by simp
qed

text \<open>C9: The scan loop of \<open>tick\<close> re-reads \<open>self.schedules[idx]\<close> after every
  \<open>spawn_backup\<close> of an earlier index; it is equivalent to the batch operation
  \<open>scan_spec\<close>, which judges all jobs on the list as it was before the scan and starts
  the due ones in index order.\<close>

theorem scan_equiv_spec:
  "scan now [0..<length (schedules st)] st = scan_spec now st"
proof -
  have "map (\<lambda>i. if i \<in> set [0..<length (schedules st)] \<and> due now (schedules st ! i)
                 then (schedules st ! i)\<lparr>is_running := True\<rparr> else schedules st ! i)
            [0..<length (schedules st)]
        = map (\<lambda>s. if due now s then s\<lparr>is_running := True\<rparr> else s) (schedules st)"
    by (rule nth_equalityI) simp_all
  then show ?thesis
    using scan_eq [of "[0..<length (schedules st)]" st now] by (simp add: scan_spec_def Let_def)
qed

text \<open>C20: Periods stay in range: when every job's period lies between 1 and \<open>i32::MAX\<close>,
  so it does after adding or editing a job (the parsed period is checked to be at least 1
  and fits an \<open>i32\<close>), deleting one, running one, and a tick.\<close>

theorem handlers_keep_periods_in_range:
  assumes "periods_ok st"
  shows "periods_ok (fst (action_add home ini now st fs))
    \<and> pred_option (\<lambda>r. periods_ok (fst r)) (action_edit home ini st fs)
    \<and> periods_ok (fst (action_delete ini st fs))
    \<and> periods_ok (fst (action_run_now st))
    \<and> periods_ok (fst (tick now inst st))"
proof (intro conjI)
  have pr: "1 \<le> parse_period t \<and> parse_period t \<le> i32_max" for t by (rule parse_period_range)
  show "periods_ok (fst (action_add home ini now st fs))"
    using assms pr by (simp add: action_add_def Let_def periods_ok_def schedule_new_def split: sum.split)
  show "pred_option (\<lambda>r. periods_ok (fst r)) (action_edit home ini st fs)"
    using assms by (simp add: action_edit_def Let_def periods_ok_edit split: option.split sum.split)
  show "periods_ok (fst (action_delete ini st fs))"
    using assms by (simp add: action_delete_def Let_def periods_ok_def list_all_remove_nth split: option.split)
  show "periods_ok (fst (action_run_now st))"
    using assms by (simp add: action_run_now_def periods_ok_spawn split: option.split)
  show "periods_ok (fst (tick now inst st))"
    using assms periods_ok_periods [OF tick_periods] by blast
qed

theorem handlers_keep_periods_in_range_witness:
  "periods_ok (fst (action_add None None 90000 example_state spec_example_fs))
   \<and> periods_ok (fst (tick 90000 5 example_state))"
proof -
  have "periods_ok example_state"
    by (simp add: periods_ok_def example_state_def spec_example_job_def schedule_new_def i32_max_def)
  then show ?thesis using handlers_keep_periods_in_range [of example_state None None 90000 spec_example_fs 5]
    by simp
qed

end
