(* ===== verification/Ui.thy ===== *)
theory Ui
  imports Controller
begin

text \<open>
  The effects of \<open>ui_top\<close> and of the row click of \<open>ui_table\<close> in \<open>main.rs\<close>: every
  widget the user can act on is an event \<open>ui_event\<close>, and \<open>ui_step\<close> is what the code does
  on it. A text field receives the new text; a folder picker the folder the dialog
  returned (a cancelled dialog is no event); a button calls its handler. Drawing is not
  modelled. \<open>ui_step\<close> returns the new controller state, filesystem and the workers
  started, or \<open>None\<close> where the code panics (\<open>action_edit\<close> out of range).
\<close>

datatype ui_event =
    TypeSource string | PickSource string | TypeDest string | PickDest string
  | TypePeriod string | SetZip bool
  | TypeSkipExt string | AddExt | ClearExts
  | TypeSkipFolder string | AddFolder | ClearFolders
  | AddJob | EditJob | DeleteJob | RunNow | ClickRow nat

text \<open>The source picker also proposes a destination when the destination field is empty or
  still the default root; the destination picker refuses the source folder.\<close>

definition pick_source :: "string option \<Rightarrow> string \<Rightarrow> app_state \<Rightarrow> app_state" where
  "pick_source home p st =
     (let st1 = st\<lparr>input_source_dir := p\<rparr> in
      if p \<noteq> [] \<and> (input_dest_dir st = [] \<or> input_dest_dir st = default_backup_root home)
      then st1\<lparr>input_dest_dir := default_dest_for_source home p\<rparr>
      else st1)"

definition pick_dest :: "string \<Rightarrow> app_state \<Rightarrow> app_state" where
  "pick_dest p st =
     (if input_source_dir st = p then log LDestEqualsSource st
      else st\<lparr>input_dest_dir := p\<rparr>)"

fun ui_step ::
  "string option \<Rightarrow> path option \<Rightarrow> timestamp \<Rightarrow> ui_event \<Rightarrow> app_state \<Rightarrow> node
     \<Rightarrow> (app_state \<times> node \<times> worker list) option" where
  "ui_step home ini now (TypeSource v) st fs = Some (st\<lparr>input_source_dir := v\<rparr>, fs, [])"
| "ui_step home ini now (PickSource p) st fs = Some (pick_source home p st, fs, [])"
| "ui_step home ini now (TypeDest v) st fs = Some (st\<lparr>input_dest_dir := v\<rparr>, fs, [])"
| "ui_step home ini now (PickDest p) st fs = Some (pick_dest p st, fs, [])"
| "ui_step home ini now (TypePeriod v) st fs = Some (st\<lparr>input_period_hours := v\<rparr>, fs, [])"
| "ui_step home ini now (SetZip b) st fs = Some (st\<lparr>input_use_zip := b\<rparr>, fs, [])"
| "ui_step home ini now (TypeSkipExt v) st fs = Some (st\<lparr>input_skip_file_ext := v\<rparr>, fs, [])"
| "ui_step home ini now AddExt st fs = Some (add_skip_file_ext st, fs, [])"
| "ui_step home ini now ClearExts st fs = Some (st\<lparr>label_skip_files := []\<rparr>, fs, [])"
| "ui_step home ini now (TypeSkipFolder v) st fs = Some (st\<lparr>input_skip_folder := v\<rparr>, fs, [])"
| "ui_step home ini now AddFolder st fs = Some (add_skip_folder st, fs, [])"
| "ui_step home ini now ClearFolders st fs = Some (st\<lparr>label_skip_folders := []\<rparr>, fs, [])"
| "ui_step home ini now AddJob st fs = (case action_add home ini now st fs of (st', fs') \<Rightarrow> Some (st', fs', []))"
| "ui_step home ini now EditJob st fs = map_option (\<lambda>(st', fs'). (st', fs', [])) (action_edit home ini st fs)"
| "ui_step home ini now DeleteJob st fs = (case action_delete ini st fs of (st', fs') \<Rightarrow> Some (st', fs', []))"
| "ui_step home ini now RunNow st fs = (case action_run_now st of (st', ws) \<Rightarrow> Some (st', fs, ws))"
| "ui_step home ini now (ClickRow i) st fs = Some (click_row i st, fs, [])"

section \<open>Lemmas\<close>

text \<open>Only the job buttons change the job list, the queue or the filesystem, and only
  \<open>Run now\<close> starts workers.\<close>

lemma add_skip_frame [simp]:
  "schedules (add_skip_file_ext st) = schedules st" "selected_index (add_skip_file_ext st) = selected_index st"
  "rx (add_skip_file_ext st) = rx st"
  "schedules (add_skip_folder st) = schedules st" "selected_index (add_skip_folder st) = selected_index st"
  "rx (add_skip_folder st) = rx st"
  by (simp_all add: add_skip_file_ext_def add_skip_folder_def Let_def)

lemma pick_frame [simp]:
  "schedules (pick_source home p st) = schedules st" "selected_index (pick_source home p st) = selected_index st"
  "rx (pick_source home p st) = rx st"
  "schedules (pick_dest p st) = schedules st" "selected_index (pick_dest p st) = selected_index st"
  "rx (pick_dest p st) = rx st"
  by (simp_all add: pick_source_def pick_dest_def Let_def)

lemma ui_step_wf: "ui_step home ini now ev st fs = Some (st', fs', ws) \<Longrightarrow> fs_wf fs \<Longrightarrow> fs_wf fs'"
  by (cases ev) (auto dest: action_add_wf action_delete_wf action_edit_wf split: prod.splits)

end
