(* ===== verification/Coordinator.thy ===== *)
theory Coordinator
  imports Ui "HOL-Library.Multiset"
begin

text \<open>
  The run coordinator: the controller, the filesystem and the worker threads in flight,
  put together. \<open>main.rs\<close> has no coordinator object: it is the protocol of
  \<open>spawn_backup\<close> (mark the job running, clone it into a thread), the thread (run
  \<open>execute_backup\<close> on the clone, send its log lines and then \<open>BackupFinished(idx, ok)\<close> over
  the channel) and \<open>tick\<close> (drain the channel, clear the running flag of job \<open>idx\<close>).
  A system step is a user event, a frame's \<open>tick\<close>, or the end of one worker's run, in any
  interleaving. The worker's run is one step: its messages reach the queue in the order it
  sends them, and the controller reads the queue only at a tick. \<open>None\<close> is a step the
  code does not finish: a panic, or a worker whose copy does not end within the fuel.
\<close>

record sys =
  ctrl :: app_state
  disk :: node
  inflight :: "worker list"

datatype sys_event =
    UI timestamp ui_event
  | Frame timestamp instant
  | Done nat nat timestamp zip_status

text \<open>\<open>Done j k ts zst\<close>: worker \<open>j\<close> of the in-flight list ends its run (copy fuel \<open>k\<close>,
  local time \<open>ts\<close> at which it names the archive, archiver outcome \<open>zst\<close>).\<close>

fun sys_step :: "string option \<Rightarrow> path option \<Rightarrow> sys_event \<Rightarrow> sys \<Rightarrow> sys option" where
  "sys_step home ini (UI now ev) s =
     (case ui_step home ini now ev (ctrl s) (disk s) of
        None \<Rightarrow> None
      | Some (st', fs', ws) \<Rightarrow> Some \<lparr>ctrl = st', disk = fs', inflight = inflight s @ ws\<rparr>)"
| "sys_step home ini (Frame now inst) s =
     (case tick now inst (ctrl s) of
        (st', ws) \<Rightarrow> Some (s\<lparr>ctrl := st', inflight := inflight s @ ws\<rparr>))"
| "sys_step home ini (Done j k ts zst) s =
     (if length (inflight s) \<le> j then None
      else (let w = inflight s ! j in
            case execute_backup k ts zst (w_job w) (disk s) of
              None \<Rightarrow> None
            | Some (ok, fs', msgs) \<Rightarrow>
                Some \<lparr>ctrl = (ctrl s)\<lparr>rx := rx (ctrl s) @ msgs @ [BackupFinished (w_idx w) ok]\<rparr>,
                      disk = fs', inflight = remove_nth j (inflight s)\<rparr>))"

fun sys_run :: "string option \<Rightarrow> path option \<Rightarrow> sys_event list \<Rightarrow> sys \<Rightarrow> sys option" where
  "sys_run home ini [] s = Some s"
| "sys_run home ini (e # es) s =
     (case sys_step home ini e s of None \<Rightarrow> None | Some s' \<Rightarrow> sys_run home ini es s')"

text \<open>Start-up: \<open>AppState::default\<close> loads the job file.\<close>

definition sys_init :: "string option \<Rightarrow> path option \<Rightarrow> timestamp \<Rightarrow> instant \<Rightarrow> node \<Rightarrow> sys" where
  "sys_init home ini now t0 fs =
     \<lparr>ctrl = load_data ini now fs (app_init home t0), disk = fs, inflight = []\<rparr>"

section \<open>The busy jobs\<close>

text \<open>A job index is busy while a worker for it is in flight or its \<open>BackupFinished\<close> waits
  in the queue.\<close>

fun finished_idxs :: "app_msg list \<Rightarrow> nat list" where
  "finished_idxs [] = []"
| "finished_idxs (Log l # ms) = finished_idxs ms"
| "finished_idxs (BackupFinished i ok # ms) = i # finished_idxs ms"

definition busy :: "sys \<Rightarrow> nat list" where
  "busy s = map w_idx (inflight s) @ finished_idxs (rx (ctrl s))"

text \<open>The running flags tell exactly the busy jobs, and no job is busy twice.\<close>

definition flags_match :: "nat list \<Rightarrow> schedule list \<Rightarrow> bool" where
  "flags_match B xs \<longleftrightarrow> distinct B \<and> (\<forall>i\<in>set B. i < length xs)
     \<and> (\<forall>i < length xs. is_running (xs ! i) \<longleftrightarrow> i \<in> set B)"

definition coord_inv :: "sys \<Rightarrow> bool" where
  "coord_inv s \<longleftrightarrow> sel_ok (ctrl s) \<and> flags_match (busy s) (schedules (ctrl s))"

text \<open>The discipline under which the invariant holds: a job is deleted only when no job is
  busy, since \<open>Vec::remove\<close> shifts the indices the workers and their messages carry.\<close>

definition no_delete_while_busy :: "sys_event \<Rightarrow> sys \<Rightarrow> bool" where
  "no_delete_while_busy e s \<longleftrightarrow> (case e of UI _ DeleteJob \<Rightarrow> busy s = [] | _ \<Rightarrow> True)"

inductive reach :: "string option \<Rightarrow> path option \<Rightarrow> sys \<Rightarrow> bool" for home ini where
  start: "reach home ini (sys_init home ini now t0 fs)"
| step: "reach home ini s \<Longrightarrow> no_delete_while_busy e s \<Longrightarrow> sys_step home ini e s = Some s'
    \<Longrightarrow> reach home ini s'"

text \<open>A run of events under the discipline (\<open>None\<close> also when an event breaks it).\<close>

fun guarded_run :: "string option \<Rightarrow> path option \<Rightarrow> sys_event list \<Rightarrow> sys \<Rightarrow> sys option" where
  "guarded_run home ini [] s = Some s"
| "guarded_run home ini (e # es) s =
     (if no_delete_while_busy e s
      then (case sys_step home ini e s of None \<Rightarrow> None | Some s' \<Rightarrow> guarded_run home ini es s')
      else None)"

definition demo_fs :: node where
  "demo_fs = spec_example_fs"

definition run_once_events :: "sys_event list" where
  "run_once_events =
     [UI 0 (TypeSource ''src''), UI 0 (TypeDest ''dst''), UI 0 AddJob,
      UI 0 (TypeSource ''src''), UI 0 (TypeDest ''bk''), UI 0 AddJob,
      UI 1 RunNow, UI 2 (ClickRow 0), UI 2 RunNow]"

definition run_once_state :: sys where
  "run_once_state = the (guarded_run None None run_once_events (sys_init None None 0 0 demo_fs))"

section \<open>Lemmas\<close>

lemma receive_finished_idle:
  "i < length (schedules st) \<Longrightarrow> \<not> is_running (schedules (receive now (BackupFinished i ok) st) ! i)"
  by simp

lemma drain_last_finished:
  assumes "rx st = ms @ [BackupFinished i ok]" and "i < length (schedules st)"
  shows "\<not> is_running (schedules (drain now st) ! i)"
proof -
  let ?st1 = "fold (receive now) ms (st\<lparr>rx := []\<rparr>)"
  have "length (schedules ?st1) = length (schedules st)"
    using fold_receive_frame [of now ms "st\<lparr>rx := []\<rparr>"] by simp
  then show ?thesis using assms receive_finished_idle [of i ?st1 now ok] by (simp add: drain_def)
qed

lemma finished_idxs_append [simp]: "finished_idxs (xs @ ys) = finished_idxs xs @ finished_idxs ys"
  by (induction xs rule: finished_idxs.induct) auto

text \<open>A worker sends only log lines before its \<open>BackupFinished\<close>.\<close>

lemma copy_recursive_logs:
  "copy_recursive k exts fols src dst fs = Some (r, fs', m) \<Longrightarrow> finished_idxs m = []"
  "copy_entries k exts fols src dst es fs = Some (r, fs', m) \<Longrightarrow> finished_idxs m = []"
proof (induction k exts fols src dst fs and k exts fols src dst es fs arbitrary: r fs' m and r fs' m
    rule: copy_recursive_copy_entries.induct)
qed (auto split: sum.splits option.splits node.splits if_splits prod.splits)

lemma execute_backup_logs:
  "execute_backup k ts zst s fs = Some (ok, fs', m) \<Longrightarrow> finished_idxs m = []"
  by (auto simp: execute_backup_def zip_step_def Let_def dest: copy_recursive_logs(1)
      split: if_splits sum.splits option.splits prod.splits zip_status.splits)

subsection \<open>The flag invariant, one list operation at a time\<close>

lemma flags_match_mset:
  assumes "mset B = mset B'"
  shows "flags_match B xs = flags_match B' xs"
  using mset_eq_setD [OF assms] mset_eq_imp_distinct_iff [OF assms] by (simp add: flags_match_def)

lemma flags_match_Nil: "flags_match [] xs \<longleftrightarrow> (\<forall>x\<in>set xs. \<not> is_running x)"
  by (auto simp: flags_match_def in_set_conv_nth) (meson nth_mem)

lemma flags_match_finish:
  "flags_match (j # B) xs \<Longrightarrow>
     flags_match B (xs[j := (xs ! j)\<lparr>is_running := False, last_time := t\<rparr>])"
  by (auto simp: flags_match_def nth_list_update)

lemma flags_match_spawn:
  "flags_match B xs \<Longrightarrow> j < length xs \<Longrightarrow> \<not> is_running (xs ! j) \<Longrightarrow>
     flags_match (j # B) (xs[j := (xs ! j)\<lparr>is_running := True\<rparr>])"
  by (auto simp: flags_match_def nth_list_update)

lemma flags_match_append_job:
  "flags_match B xs \<Longrightarrow> \<not> is_running x \<Longrightarrow> flags_match B (xs @ [x])"
  by (auto simp: flags_match_def nth_append less_Suc_eq)

lemma flags_match_update:
  assumes "flags_match B xs" and "is_running x = is_running (xs ! j)"
  shows "flags_match B (xs[j := x])"
proof -
  have "i < length xs \<Longrightarrow> is_running (xs[j := x] ! i) = is_running (xs ! i)" for i
    using assms(2) by (cases "i = j") auto
  with assms(1) show ?thesis by (simp add: flags_match_def)
qed

lemma flags_match_remove_nth:
  "flags_match [] xs \<Longrightarrow> flags_match [] (remove_nth j xs)"
  by (auto simp: flags_match_Nil remove_nth_def dest: in_set_takeD in_set_dropD)

lemma flags_match_move:
  "flags_match (B1 @ b # B2) xs \<Longrightarrow> flags_match (B1 @ B2 @ [b]) xs"
  by (simp add: flags_match_mset [of "B1 @ b # B2" "B1 @ B2 @ [b]"])

lemma remove_nth_nth_shift:
  "j < i \<Longrightarrow> i < length xs \<Longrightarrow> remove_nth j xs ! (i - 1) = xs ! i"
  by (auto simp: remove_nth_def nth_append min_def)

lemma length_remove_nth [simp]: "j < length xs \<Longrightarrow> length (remove_nth j xs) = length xs - 1"
  by (simp add: remove_nth_def)

lemma flags_match_bound: "flags_match B xs \<Longrightarrow> i \<in> set B \<Longrightarrow> i < length xs"
  by (simp add: flags_match_def)

subsection \<open>The tick keeps the flags\<close>

text \<open>Draining: each \<open>BackupFinished i\<close> clears the flag of job \<open>i\<close>, which is busy exactly
  once, so after the drain the busy jobs are those of the workers still in flight.\<close>

lemma fold_receive_flags:
  "flags_match (R @ finished_idxs ms) (schedules st) \<Longrightarrow>
     flags_match R (schedules (fold (receive now) ms st))"
proof (induction ms arbitrary: st)
  case Nil
  then show ?case by simp
next
  case (Cons m ms)
  show ?case
  proof (cases m)
    case (Log l)
    then show ?thesis using Cons by simp
  next
    case (BackupFinished j ok)
    then have fm: "flags_match (j # R @ finished_idxs ms) (schedules st)"
      using Cons.prems flags_match_mset [of "R @ j # finished_idxs ms" "j # R @ finished_idxs ms"] by simp
    then have "j < length (schedules st)" by (simp add: flags_match_def)
    then show ?thesis using BackupFinished Cons.IH flags_match_finish [OF fm] by simp
  qed
qed

lemma drain_flags:
  "flags_match (R @ finished_idxs (rx st)) (schedules st) \<Longrightarrow> flags_match R (schedules (drain now st))"
  using fold_receive_flags [of R "rx st" "st\<lparr>rx := []\<rparr>"] by (simp add: drain_def)

lemma scan_flags:
  "flags_match B (schedules st) \<Longrightarrow>
     flags_match (map w_idx (snd (scan now idxs st)) @ B) (schedules (fst (scan now idxs st)))"
proof (induction idxs arbitrary: B st)
  case Nil
  then show ?case by simp
next
  case (Cons j idxs)
  show ?case
  proof (cases "due now (schedules st ! j) \<and> j < length (schedules st)")
    case True
    then have "flags_match (j # B) (schedules (fst (spawn_backup j st)))"
      using flags_match_spawn [OF Cons.prems] by (simp add: spawn_backup_in_range due_def)
    then have ih: "flags_match (map w_idx (snd (scan now idxs (fst (spawn_backup j st)))) @ j # B)
                 (schedules (fst (scan now idxs (fst (spawn_backup j st)))))"
      by (rule Cons.IH)
    have e: "fst (scan now (j # idxs) st) = fst (scan now idxs (fst (spawn_backup j st)))"
      "map w_idx (snd (scan now (j # idxs) st)) = j # map w_idx (snd (scan now idxs (fst (spawn_backup j st))))"
      using True by (simp_all only: scan_Cons_split) (simp_all add: spawn_backup_def Let_def)
    have "mset (map w_idx (snd (scan now idxs (fst (spawn_backup j st)))) @ j # B)
        = mset (j # map w_idx (snd (scan now idxs (fst (spawn_backup j st)))) @ B)" by simp
    from ih flags_match_mset [OF this] show ?thesis by (simp only: e append_Cons)
  next
    case False
    then have sp: "(if due now (schedules st ! j) then spawn_backup j st else (st, [])) = (st, [])"
      by (auto simp: spawn_backup_def)
    show ?thesis using Cons.IH [OF Cons.prems] by (simp only: scan_Cons_split sp) simp
  qed
qed

lemma tick_flags:
  assumes "flags_match (R @ finished_idxs (rx st)) (schedules st)"
  shows "flags_match (R @ map w_idx (snd (tick now inst st))) (schedules (fst (tick now inst st)))"
    and "rx (fst (tick now inst st)) = []"
proof -
  have d: "flags_match R (schedules (drain now st))" by (rule drain_flags [OF assms])
  show "flags_match (R @ map w_idx (snd (tick now inst st))) (schedules (fst (tick now inst st)))"
  proof (cases "1 \<le> inst - last_tick st")
    case True
    then obtain st' where sc: "scan now [0..<length (schedules (drain now st))] (drain now st) = (st', snd (tick now inst st))"
      and t: "fst (tick now inst st) = st'\<lparr>last_tick := inst\<rparr>" by (rule tick_scans)
    have "flags_match (map w_idx (snd (tick now inst st)) @ R) (schedules st')"
      using scan_flags [OF d, of now "[0..<length (schedules (drain now st))]"] sc by simp
    then show ?thesis
      using flags_match_mset [of "map w_idx (snd (tick now inst st)) @ R" "R @ map w_idx (snd (tick now inst st))"]
      by (simp add: t)
  next
    case False
    then show ?thesis using d by (simp add: tick_idle)
  qed
  show "rx (fst (tick now inst st)) = []"
  proof (cases "1 \<le> inst - last_tick st")
    case True
    then obtain st' where sc: "scan now [0..<length (schedules (drain now st))] (drain now st) = (st', snd (tick now inst st))"
      and t: "fst (tick now inst st) = st'\<lparr>last_tick := inst\<rparr>" by (rule tick_scans)
    show ?thesis using scan_all_rx [OF sc] by (simp add: t)
  next
    case False
    then show ?thesis by (simp add: tick_idle)
  qed
qed

subsection \<open>Every step keeps the invariant\<close>

lemma sel_ok_rx [simp]: "sel_ok (st\<lparr>rx := r\<rparr>) = sel_ok st"
  by (simp add: sel_ok_def split: option.split)

lemma coord_inv_frame:
  "coord_inv s \<Longrightarrow> schedules st' = schedules (ctrl s) \<Longrightarrow> rx st' = rx (ctrl s) \<Longrightarrow> sel_ok st'
   \<Longrightarrow> coord_inv \<lparr>ctrl = st', disk = fs', inflight = inflight s\<rparr>"
  by (simp add: coord_inv_def busy_def)

lemma frame_step_inv:
  assumes "coord_inv s"
  shows "coord_inv (s\<lparr>ctrl := fst (tick now inst (ctrl s)), inflight := inflight s @ snd (tick now inst (ctrl s))\<rparr>)"
proof -
  have fm: "flags_match (map w_idx (inflight s) @ finished_idxs (rx (ctrl s))) (schedules (ctrl s))"
    using assms by (simp add: coord_inv_def busy_def)
  show ?thesis using assms tick_flags [OF fm, of now inst]
    by (simp add: coord_inv_def busy_def tick_sel_ok)
qed

lemma done_step_inv:
  assumes "coord_inv s" and "sys_step home ini (Done j k ts zst) s = Some s'"
  shows "coord_inv s'"
proof -
  let ?I = "inflight s" and ?F = "finished_idxs (rx (ctrl s))"
  have j: "j < length ?I" using assms(2) by (simp split: if_splits)
  then obtain ok fs' msgs where ex: "execute_backup k ts zst (w_job (?I ! j)) (disk s) = Some (ok, fs', msgs)"
    and s': "s' = \<lparr>ctrl = (ctrl s)\<lparr>rx := rx (ctrl s) @ msgs @ [BackupFinished (w_idx (?I ! j)) ok]\<rparr>,
                   disk = fs', inflight = remove_nth j ?I\<rparr>"
    using assms(2) by (auto simp: Let_def split: option.splits)
  have "map w_idx ?I = map w_idx (take j ?I) @ w_idx (?I ! j) # map w_idx (drop (Suc j) ?I)"
    using id_take_nth_drop [OF j] by (metis list.simps(9) map_append)
  then have "flags_match (map w_idx (take j ?I) @ w_idx (?I ! j) # map w_idx (drop (Suc j) ?I) @ ?F)
               (schedules (ctrl s))"
    using assms(1) by (simp add: coord_inv_def busy_def)
  then have "flags_match (map w_idx (take j ?I) @ (map w_idx (drop (Suc j) ?I) @ ?F) @ [w_idx (?I ! j)])
               (schedules (ctrl s))"
    using flags_match_move by fastforce
  then show ?thesis using assms(1) execute_backup_logs [OF ex]
    by (simp add: s' coord_inv_def busy_def remove_nth_def)
qed

lemma ui_step_inv:
  assumes inv: "coord_inv s" and g: "no_delete_while_busy (UI now ev) s"
    and u: "ui_step home ini now ev (ctrl s) (disk s) = Some (st', fs', ws)"
  shows "coord_inv \<lparr>ctrl = st', disk = fs', inflight = inflight s @ ws\<rparr>"
proof -
  let ?st = "ctrl s" and ?R = "map w_idx (inflight s)" and ?F = "finished_idxs (rx (ctrl s))"
  have sel: "sel_ok ?st" and fm: "flags_match (?R @ ?F) (schedules ?st)"
    using inv by (simp_all add: coord_inv_def busy_def)
  show ?thesis
  proof (cases ev)
    case AddJob
    then have e: "st' = fst (action_add home ini now ?st (disk s))" "ws = []"
      using u by (simp_all split: prod.splits)
    show ?thesis using action_add_shape [of home ini now ?st "disk s"] action_add_sel_ok [OF sel] fm
      by (auto simp: e coord_inv_def busy_def intro: flags_match_append_job)
  next
    case EditJob
    then obtain r where r: "action_edit home ini ?st (disk s) = Some r" and e: "st' = fst r" "ws = []"
      using u by (auto split: prod.splits)
    show ?thesis using action_edit_shape [OF r] action_edit_sel_ok [OF sel r] fm
      by (auto simp: e coord_inv_def busy_def flags_match_update [OF fm])
  next
    case DeleteJob
    then have e: "st' = fst (action_delete ini ?st (disk s))" "ws = []" and b: "?R @ ?F = []"
      using u g by (simp_all add: no_delete_while_busy_def busy_def split: prod.splits)
    show ?thesis using action_delete_shape [of ini ?st "disk s"] action_delete_sel_ok [OF sel] fm b
      by (auto simp: e coord_inv_def busy_def intro: flags_match_remove_nth)
  next
    case RunNow
    then have e: "st' = fst (action_run_now ?st)" "ws = snd (action_run_now ?st)"
      using u by (simp_all split: prod.splits)
    from action_run_now_shape [of ?st] show ?thesis
    proof (elim conjE disjE exE)
      assume "rx (fst (action_run_now ?st)) = rx ?st" and "snd (action_run_now ?st) = []"
        and "schedules (fst (action_run_now ?st)) = schedules ?st"
      then show ?thesis using action_run_now_sel_ok [OF sel] fm by (simp add: e coord_inv_def busy_def)
    next
      fix j assume rx: "rx (fst (action_run_now ?st)) = rx ?st"
        and j: "selected_index ?st = Some j" "j < length (schedules ?st)" "\<not> is_running (schedules ?st ! j)"
        and sp: "action_run_now ?st = spawn_backup j ?st"
      have "flags_match (j # ?R @ ?F) (schedules (fst (spawn_backup j ?st)))"
        using flags_match_spawn [OF fm j(2,3)] j(2) by (simp add: spawn_backup_in_range)
      moreover have "mset (j # ?R @ ?F) = mset (?R @ [j] @ ?F)" by simp
      ultimately have "flags_match (?R @ [j] @ ?F) (schedules (fst (spawn_backup j ?st)))"
        using flags_match_mset by blast
      then show ?thesis using action_run_now_sel_ok [OF sel] rx j(2)
        by (simp add: e sp coord_inv_def busy_def spawn_backup_in_range)
    qed
  next
    case (ClickRow i)
    then have e: "st' = click_row i ?st" "ws = []" using u by simp_all
    show ?thesis using coord_inv_frame [OF inv, of st'] click_row_sel_ok [OF sel]
      by (simp add: e click_row_def)
  qed (use u sel in \<open>auto intro!: coord_inv_frame [OF inv] simp: sel_ok_def split: option.splits\<close>)
qed

lemma sys_step_inv:
  assumes "coord_inv s" and "no_delete_while_busy e s" and "sys_step home ini e s = Some s'"
  shows "coord_inv s'"
proof (cases e)
  case (UI now ev)
  then obtain st' fs' ws where "ui_step home ini now ev (ctrl s) (disk s) = Some (st', fs', ws)"
    and "s' = \<lparr>ctrl = st', disk = fs', inflight = inflight s @ ws\<rparr>"
    using assms(3) by (auto split: option.splits)
  then show ?thesis using ui_step_inv assms(1,2) UI by blast
next
  case (Frame now inst)
  then show ?thesis using assms(3) frame_step_inv [OF assms(1), of now inst]
    by (cases "tick now inst (ctrl s)") simp
next
  case (Done j k ts zst)
  then show ?thesis using assms(1,3) done_step_inv by blast
qed

lemma load_records_idle: "\<forall>x\<in>set (load_records n r now). \<not> is_running x"
proof (induction n r now rule: load_records.induct)
  case (1 rest now)
  then show ?case by simp
next
  case (2 c rest now)
  obtain line rest' where "read_line rest = (line, rest')" by force
  then show ?case using 2 by (auto simp: parse_record_def schedule_new_def Let_def)
qed

lemma init_inv: "coord_inv (sys_init home ini now t0 fs)"
  using load_records_idle
  by (auto simp: sys_init_def coord_inv_def busy_def load_data_def app_init_def sel_ok_def
      flags_match_Nil load_content_def Let_def split: option.splits node.splits bool.splits prod.splits)

lemma reach_inv: "reach home ini s \<Longrightarrow> coord_inv s"
  by (induction rule: reach.induct) (auto intro: init_inv sys_step_inv)

lemma guarded_run_reach:
  "reach home ini s \<Longrightarrow> guarded_run home ini es s = Some s' \<Longrightarrow> reach home ini s'"
  by (induction es arbitrary: s) (auto intro: reach.step split: if_splits option.splits)

text \<open>Once the controller holds no message, a job flagged running stays so at every tick and
  the tick starts no worker for it.\<close>

lemma tick_keeps_running:
  assumes "rx st = []" and "i < length (schedules st)" and "is_running (schedules st ! i)"
  shows "is_running (schedules (fst (tick now inst st)) ! i) \<and> i \<notin> w_idx ` set (snd (tick now inst st))"
proof -
  have d: "drain now st = st" using assms(1) by (simp add: drain_def)
  show ?thesis
  proof (cases "1 \<le> inst - last_tick st")
    case True
    then obtain st' where sc: "scan now [0..<length (schedules (drain now st))] (drain now st) = (st', snd (tick now inst st))"
      and t: "fst (tick now inst st) = st'\<lparr>last_tick := inst\<rparr>" by (rule tick_scans)
    show ?thesis using assms scan_all_nth [OF sc, of i] scan_all_workers [OF sc] by (auto simp: d t due_def)
  next
    case False
    then show ?thesis using assms d by (simp add: tick_idle)
  qed
qed

lemma tick_workers_bound:
  "w \<in> set (snd (tick now inst st)) \<Longrightarrow> w_idx w < length (schedules st)"
proof (cases "1 \<le> inst - last_tick st")
  case True
  then obtain st' where sc: "scan now [0..<length (schedules (drain now st))] (drain now st) = (st', snd (tick now inst st))"
    and "fst (tick now inst st) = st'\<lparr>last_tick := inst\<rparr>" by (rule tick_scans)
  then show "w \<in> set (snd (tick now inst st)) \<Longrightarrow> ?thesis" by (auto simp: scan_all_workers [OF sc])
next
  case False
  then show "w \<in> set (snd (tick now inst st)) \<Longrightarrow> ?thesis" by (simp add: tick_idle)
qed

subsection \<open>Every step keeps the filesystem well formed\<close>

lemma sys_step_wf:
  assumes "sys_step home ini e s = Some s'" and "fs_wf (disk s)"
  shows "fs_wf (disk s')"
proof (cases e)
  case (UI now ev)
  then obtain st' fs' ws where "ui_step home ini now ev (ctrl s) (disk s) = Some (st', fs', ws)"
    and "disk s' = fs'" using assms(1) by (auto split: option.splits)
  then show ?thesis using ui_step_wf assms(2) by blast
next
  case (Frame now inst)
  then show ?thesis using assms by (auto split: prod.splits)
next
  case (Done j k ts zst)
  then show ?thesis using assms execute_backup_wf
    by (auto simp: Let_def split: if_splits option.splits prod.splits)
qed

section \<open>Properties\<close>

text \<open>C3: At most one run per job (spec: no job ever has two execution units in flight):
  in every state reachable from start-up, as long as jobs are deleted only while none is
  busy, the in-flight workers and the pending \<open>BackupFinished\<close> messages name distinct
  jobs, and each of them a job of the list.\<close>

theorem at_most_one_run_per_job:
  "reach home ini s \<Longrightarrow>
     distinct (map w_idx (inflight s) @ finished_idxs (rx (ctrl s)))
   \<and> (\<forall>w\<in>set (inflight s). w_idx w < length (schedules (ctrl s)))"
  by (drule reach_inv) (auto simp: coord_inv_def busy_def flags_match_def)

lemma run_once_reach: "reach None None run_once_state"
proof -
  have "guarded_run None None run_once_events (sys_init None None 0 0 demo_fs) = Some run_once_state"
    unfolding run_once_state_def by code_simp
  then show ?thesis using guarded_run_reach reach.start by blast
qed

theorem at_most_one_run_per_job_witness:
  "map w_idx (inflight run_once_state) = [1, 0]
   \<and> distinct (map w_idx (inflight run_once_state) @ finished_idxs (rx (ctrl run_once_state)))"
proof -
  have "map w_idx (inflight run_once_state) = [1, 0]" unfolding run_once_state_def by code_simp
  then show ?thesis using at_most_one_run_per_job [OF run_once_reach] by simp
qed

text \<open>C6: The running flag is exact (no job is stuck running and none runs unflagged): in
  every reachable state under the discipline, job \<open>i\<close> is flagged running exactly when a
  worker for it is in flight or its \<open>BackupFinished\<close> waits in the queue.\<close>

theorem running_flag_exact:
  "reach home ini s \<Longrightarrow> i < length (schedules (ctrl s)) \<Longrightarrow>
     is_running (schedules (ctrl s) ! i) \<longleftrightarrow>
       i \<in> w_idx ` set (inflight s) \<or> i \<in> set (finished_idxs (rx (ctrl s)))"
  by (drule reach_inv) (auto simp: coord_inv_def busy_def flags_match_def)

theorem running_flag_exact_witness:
  "is_running (schedules (ctrl run_once_state) ! 1)
   \<and> 1 \<in> w_idx ` set (inflight run_once_state)"
proof -
  have "length (schedules (ctrl run_once_state)) = 2" unfolding run_once_state_def by code_simp
  moreover have "map w_idx (inflight run_once_state) = [1, 0]" unfolding run_once_state_def by code_simp
  ultimately show ?thesis
    using running_flag_exact [OF run_once_reach, of 1] by (simp add: image_set)
qed

text \<open>C26: Deleting a job while a later job runs shifts the job list under the index its
  worker carries (\<open>Vec::remove\<close>): the workers in flight are untouched, the running job
  moves from index \<open>i\<close> to \<open>i - 1\<close>, and its \<open>BackupFinished(i)\<close> no longer reaches it. The
  message leaves the job at \<open>i - 1\<close> as it was, running flag included, and instead either
  clears the flag and stamps the last-run time of the next job (now at \<open>i\<close>), whose own
  worker may still be copying, so that \<open>Run now\<close> or a tick can start a second worker
  on it, or, when the running job was the last one, falls off the end of the list, so
  that the job stays flagged running with no worker left.\<close>

theorem delete_while_running_shift:
  assumes "selected_index (ctrl s) = Some j" and "j < i" and "i < length (schedules (ctrl s))"
    and "sys_step home ini (UI now DeleteJob) s = Some s1"
  shows "inflight s1 = inflight s
    \<and> schedules (ctrl s1) ! (i - 1) = schedules (ctrl s) ! i
    \<and> schedules (receive now' (BackupFinished i ok) (ctrl s1)) ! (i - 1) = schedules (ctrl s) ! i
    \<and> (i + 1 < length (schedules (ctrl s)) \<longrightarrow>
         schedules (receive now' (BackupFinished i ok) (ctrl s1)) ! i
           = (schedules (ctrl s) ! (i + 1))\<lparr>is_running := False, last_time := now'\<rparr>)
    \<and> (i + 1 = length (schedules (ctrl s)) \<longrightarrow>
         schedules (receive now' (BackupFinished i ok) (ctrl s1)) = schedules (ctrl s1))"
proof -
  let ?xs = "schedules (ctrl s)"
  have jl: "j < length ?xs" using assms(2,3) by simp
  have s1: "inflight s1 = inflight s" "schedules (ctrl s1) = remove_nth j ?xs"
    using assms(1,4) jl by (auto simp: action_delete_def Let_def)
  have sh: "remove_nth j ?xs ! (i - 1) = ?xs ! i" by (rule remove_nth_nth_shift [OF assms(2,3)])
  have sh1: "remove_nth j ?xs ! i = ?xs ! (i + 1)" if "i + 1 < length ?xs"
    using remove_nth_nth_shift [of j "i + 1" ?xs] assms(2) that by simp
  show ?thesis using s1 sh sh1 jl assms(2,3) by (auto simp: nth_list_update)
qed

theorem delete_while_running_shift_witness:
  "\<exists>s1. sys_step None None (UI 3 DeleteJob) run_once_state = Some s1
     \<and> schedules (ctrl s1) ! 0 = schedules (ctrl run_once_state) ! 1
     \<and> schedules (receive 4 (BackupFinished 1 True) (ctrl s1)) ! 0 = schedules (ctrl run_once_state) ! 1
     \<and> schedules (receive 4 (BackupFinished 1 True) (ctrl s1)) = schedules (ctrl s1)"
proof -
  obtain s1 where st: "sys_step None None (UI 3 DeleteJob) run_once_state = Some s1"
  proof -
    have "sys_step None None (UI 3 DeleteJob) run_once_state \<noteq> None"
      unfolding run_once_state_def by code_simp
    then show ?thesis using that by blast
  qed
  have h: "selected_index (ctrl run_once_state) = Some 0" "length (schedules (ctrl run_once_state)) = 2"
    unfolding run_once_state_def by code_simp+
  have "(0::nat) < 1" "1 < length (schedules (ctrl run_once_state))" using h by simp_all
  from delete_while_running_shift [OF h(1) this st, of 4 True] st h show ?thesis by auto
qed

text \<open>C7: Every run ends and frees its job: in a reachable state, a worker whose job has
  parallel source and destination, with the source tree on disk of height below the fuel,
  completes its run (the coordinator step exists), and the next tick's drain of the
  channel leaves its job idle.\<close>

theorem worker_run_ends:
  assumes "reach home ini s" and "j < length (inflight s)"
    and "path_of (source_dir (w_job (inflight s ! j))) \<parallel> path_of (dest_dir (w_job (inflight s ! j)))"
    and "lookup (disk s) (path_of (source_dir (w_job (inflight s ! j)))) = Some n"
    and "names_distinct n" and "height n < k"
  shows "\<exists>s'. sys_step home ini (Done j k ts zst) s = Some s'
           \<and> \<not> is_running (schedules (drain now (ctrl s')) ! w_idx (inflight s ! j))"
proof -
  obtain ok fs' msgs where ex: "execute_backup k ts zst (w_job (inflight s ! j)) (disk s) = Some (ok, fs', msgs)"
    using execute_backup_total [OF assms(3-6)] by (metis prod_cases3)
  let ?s' = "\<lparr>ctrl = (ctrl s)\<lparr>rx := rx (ctrl s) @ msgs @ [BackupFinished (w_idx (inflight s ! j)) ok]\<rparr>,
              disk = fs', inflight = remove_nth j (inflight s)\<rparr>"
  have st: "sys_step home ini (Done j k ts zst) s = Some ?s'" using assms(2) ex by (simp add: Let_def)
  have "w_idx (inflight s ! j) < length (schedules (ctrl s))"
    using reach_inv [OF assms(1)] assms(2) by (auto simp: coord_inv_def busy_def flags_match_def)
  then have "\<not> is_running (schedules (drain now (ctrl ?s')) ! w_idx (inflight s ! j))"
    by (intro drain_last_finished [of _ "rx (ctrl s) @ msgs"]) simp_all
  with st show ?thesis by blast
qed

theorem worker_run_ends_witness:
  "\<exists>s'. sys_step None None (Done 0 5 1794182400 ZipSuccess) run_once_state = Some s'
     \<and> \<not> is_running (schedules (drain 3 (ctrl s')) ! 1)"
proof -
  let ?n = "the (lookup demo_fs [''src''])"
  have w: "map (\<lambda>w. (w_idx w, source_dir (w_job w), dest_dir (w_job w))) (inflight run_once_state)
           = [(1, ''src'', ''bk''), (0, ''src'', ''dst'')]"
    unfolding run_once_state_def by code_simp
  have l: "lookup (disk run_once_state) [''src''] = Some ?n" unfolding run_once_state_def by code_simp
  have h: "0 < length (inflight run_once_state)"
    "path_of (source_dir (w_job (inflight run_once_state ! 0))) \<parallel> path_of (dest_dir (w_job (inflight run_once_state ! 0)))"
    "lookup (disk run_once_state) (path_of (source_dir (w_job (inflight run_once_state ! 0)))) = Some ?n"
    "names_distinct ?n" "height ?n < 5"
    using w l by (auto simp: path_of_def parallel_def demo_fs_def spec_example_fs_def rust_simps
        map_eq_Cons_conv)
  have "w_idx (inflight run_once_state ! 0) = 1" using w by (auto simp: map_eq_Cons_conv)
  then show ?thesis using worker_run_ends [OF run_once_reach h, of "1794182400" ZipSuccess 3] by simp
qed

end
