(* ===== verification/Lifecycle.thy ===== *)
theory Lifecycle
  imports Coordinator
begin

text \<open>
  The program across its start-ups. \<open>main\<close> builds \<open>AppState::default\<close>, which loads the
  job file at \<open>ini_path()\<close>, next to the executable; quitting drops the controller, the
  channel and the worker threads, and only the filesystem remains for the next start.
  The job file holds each job's source, destination, period, skip labels and zip flag
  (\<open>saved_fields\<close>), not its last run time nor its running flag. This theory shows what a
  restart keeps (the job list, as long as the file is kept up to date) and what it loses
  (the time of each job's last run, so every job waits a full period again).
\<close>

definition ini_path :: "path option \<Rightarrow> path option" where
  "ini_path exe =
     (case exe of None \<Rightarrow> None
      | Some e \<Rightarrow> if e = [] then None else Some (butlast e @ [''AutoBackup.ini'']))"

definition app_start :: "string option \<Rightarrow> path option \<Rightarrow> timestamp \<Rightarrow> instant \<Rightarrow> node \<Rightarrow> sys" where
  "app_start home exe now t0 fs = sys_init home (ini_path exe) now t0 fs"

definition restart :: "string option \<Rightarrow> path option \<Rightarrow> timestamp \<Rightarrow> instant \<Rightarrow> sys \<Rightarrow> sys" where
  "restart home exe now t0 s = app_start home exe now t0 (disk s)"

definition saved_fields :: "schedule \<Rightarrow> string \<times> string \<times> int \<times> string \<times> string \<times> bool" where
  "saved_fields s =
     (source_dir s, dest_dir s, period_hours s, skip_file_exts_label s, skip_folders_label s, use_zip s)"

section \<open>Keeping the job file up to date\<close>

text \<open>The job file exists and is readable.\<close>

definition job_file_ok :: "path \<Rightarrow> node \<Rightarrow> bool" where
  "job_file_ok p fs \<longleftrightarrow> p \<noteq> [] \<and> (case lookup fs p of Some (File c True) \<Rightarrow> True | _ \<Rightarrow> False)"

text \<open>The job file loads to the jobs of the controller.\<close>

definition synced :: "path \<Rightarrow> sys \<Rightarrow> bool" where
  "synced p s \<longleftrightarrow> p \<noteq> [] \<and>
     (case lookup (disk s) p of
        Some (File c True) \<Rightarrow> map saved_fields (load_content c 0) = map saved_fields (schedules (ctrl s))
      | _ \<Rightarrow> False)"

definition saveable :: "app_state \<Rightarrow> bool" where
  "saveable st \<longleftrightarrow> list_all persistable (schedules st) \<and> length (schedules st) \<le> usize_max"

text \<open>A step keeps clear of the job file when the destination a handler creates and the
  destination and archive a finishing worker writes are parallel to it.\<close>

definition clear_of :: "path \<Rightarrow> sys_event \<Rightarrow> sys \<Rightarrow> bool" where
  "clear_of p e s =
     (case e of
        UI _ AddJob \<Rightarrow> path_of (input_dest_dir (ctrl s)) \<parallel> p
      | UI _ EditJob \<Rightarrow> path_of (input_dest_dir (ctrl s)) \<parallel> p
      | Done j k ts zst \<Rightarrow>
          (j < length (inflight s) \<longrightarrow>
             path_of (dest_dir (w_job (inflight s ! j))) \<parallel> p
             \<and> path_of (zip_name (w_job (inflight s ! j)) ts) \<parallel> p)
      | _ \<Rightarrow> True)"

fun safe_run :: "string option \<Rightarrow> path \<Rightarrow> sys_event list \<Rightarrow> sys \<Rightarrow> bool" where
  "safe_run home p [] s = True"
| "safe_run home p (e # es) s =
     (clear_of p e s \<and>
      (case sys_step home (Some p) e s of
         None \<Rightarrow> True
       | Some s' \<Rightarrow> saveable (ctrl s') \<and> safe_run home p es s'))"

section \<open>Last-run times after a start-up\<close>

text \<open>An event happens at time \<open>t\<close> or later (a worker's completion is judged at the tick
  that drains its message).\<close>

definition event_from :: "timestamp \<Rightarrow> sys_event \<Rightarrow> bool" where
  "event_from t e = (case e of UI n _ \<Rightarrow> t \<le> n | Frame n _ \<Rightarrow> t \<le> n | Done _ _ _ _ \<Rightarrow> True)"

text \<open>Every job last ran at time \<open>t\<close> or later.\<close>

definition stamped_from :: "timestamp \<Rightarrow> app_state \<Rightarrow> bool" where
  "stamped_from t st \<longleftrightarrow> list_all (\<lambda>x. t \<le> last_time x) (schedules st)"

section \<open>A demonstration run\<close>

definition demo_exe :: path where
  "demo_exe = [''app'', ''autobackup'']"

definition lifecycle_fs :: node where
  "lifecycle_fs =
     Dir [(''src'', Dir [(''a.txt'', File ''A'' True), (''b.log'', File ''B'' True),
            (''sub'', Dir [(''c.tmp'', File ''C'' True), (''d.txt'', File ''D'' True)] True)] True),
          (''app'', Dir [(''autobackup'', File ''ELF'' True),
            (''AutoBackup.ini'', File (save_content []) True)] True)] True"

definition lifecycle_events :: "sys_event list" where
  "lifecycle_events =
     [UI 0 (TypeSource ''src''), UI 0 (TypeDest ''dst''), UI 0 AddJob, UI 1 RunNow,
      Done 0 5 1794182400 ZipSuccess, Frame 4 5]"

definition restart_events :: "sys_event list" where
  "restart_events = [UI 10 (ClickRow 0), UI 10 RunNow, Done 0 5 1794182400 ZipSuccess, Frame 20 30]"

definition lifecycle_state :: sys where
  "lifecycle_state =
     the (sys_run None (ini_path (Some demo_exe)) lifecycle_events
            (app_start None (Some demo_exe) 0 0 lifecycle_fs))"

section \<open>Lemmas\<close>

lemma saved_fields_upd [simp]:
  "saved_fields (s\<lparr>is_running := b\<rparr>) = saved_fields s"
  "saved_fields (s\<lparr>last_time := t\<rparr>) = saved_fields s"
  by (simp_all add: saved_fields_def)

lemma map_update_same: "f x = f (xs ! i) \<Longrightarrow> map f (xs[i := x]) = map f xs"
  by (induction xs arbitrary: i) (auto split: nat.split)

subsection \<open>Start-up\<close>

lemma ini_path_some: "ini_path exe = Some p \<Longrightarrow> p \<noteq> []"
  by (auto simp: ini_path_def split: option.splits if_splits)

lemma load_records_stamped:
  "x \<in> set (load_records n r now) \<Longrightarrow> last_time x = now \<and> \<not> is_running x"
proof (induction n arbitrary: r)
  case 0
  then show ?case by simp
next
  case (Suc n)
  obtain line r' where "read_line r = (line, r')" by force
  with Suc show ?case by (auto simp: Let_def parse_record_def schedule_new_def split: if_splits)
qed

lemma load_records_fields:
  "map saved_fields (load_records n r now) = map saved_fields (load_records n r now')"
proof (induction n arbitrary: r)
  case 0
  then show ?case by simp
next
  case (Suc n)
  obtain line r' where "read_line r = (line, r')" by force
  with Suc show ?case by (simp add: Let_def parse_record_def schedule_new_def saved_fields_def)
qed

lemma load_content_fields:
  "map saved_fields (load_content c now) = map saved_fields (load_content c now')"
  by (simp add: load_content_def load_records_fields split: prod.split)

lemma restart_ctrl:
  "ctrl (restart home exe now t0 s) = load_data (ini_path exe) now (disk s) (app_init home t0)"
  by (simp add: restart_def app_start_def sys_init_def)

text \<open>After a start-up, every job carries the start-up time as its last run, none is
  running, and the queue is empty.\<close>

lemma load_data_fresh:
  assumes "x \<in> set (schedules (load_data ini now fs (app_init home t0)))"
  shows "last_time x = now \<and> \<not> is_running x"
  using assms load_records_stamped
  by (auto simp: load_data_def load_content_def log_def app_init_def Let_def
      split: option.splits node.splits bool.splits prod.splits)

lemma load_data_rx: "rx (load_data ini now fs st) = rx st"
  by (auto simp: load_data_def log_def Let_def split: option.splits node.splits bool.splits)

lemma restart_jobs:
  "ini_path exe = Some p \<Longrightarrow> lookup (disk s) p = Some (File c True) \<Longrightarrow>
     schedules (ctrl (restart home exe now t0 s)) = load_content c now"
  by (simp add: restart_ctrl load_data_file app_init_def)

subsection \<open>The controller keeps the saved fields but through its handlers\<close>

lemma receive_fields [simp]:
  "map saved_fields (schedules (receive now m st)) = map saved_fields (schedules st)"
  by (cases m) (simp_all add: log_def map_update_same)

lemma drain_fields:
  "map saved_fields (schedules (drain now st)) = map saved_fields (schedules st)"
proof -
  have "map saved_fields (schedules (fold (receive now) ms st')) = map saved_fields (schedules st')" for ms st'
    by (induction ms arbitrary: st') simp_all
  then show ?thesis by (simp add: drain_def)
qed

lemma spawn_backup_fields [simp]:
  "map saved_fields (schedules (fst (spawn_backup i st))) = map saved_fields (schedules st)"
  by (simp add: spawn_backup_def log_def Let_def map_update_same)

lemma tick_fields:
  "map saved_fields (schedules (fst (tick now inst st))) = map saved_fields (schedules st)"
proof (cases "1 \<le> inst - last_tick st")
  case True
  then obtain st' where sc: "scan now [0..<length (schedules (drain now st))] (drain now st) = (st', snd (tick now inst st))"
    and t: "fst (tick now inst st) = st'\<lparr>last_tick := inst\<rparr>" by (rule tick_scans)
  have "map saved_fields (schedules st') = map saved_fields (schedules (drain now st))"
    by (rule nth_equalityI) (simp_all add: scan_all_length [OF sc] scan_all_nth [OF sc])
  then show ?thesis by (simp add: t drain_fields)
next
  case False
  then show ?thesis by (simp add: tick_idle drain_fields)
qed

subsection \<open>Each step saves the job list or leaves the job file and the saved fields alone\<close>

lemma action_add_job_file:
  assumes "action_add home (Some p) now st fs = (st', fs')" and "lookup fs p = Some (File c True)"
    and "p \<noteq> []" and "path_of (input_dest_dir st) \<parallel> p"
  shows "(fs' = fs \<and> schedules st' = schedules st)
         \<or> lookup fs' p = Some (File (save_content (schedules st')) True)"
proof (cases "trim (input_source_dir st) = [] \<or> \<not> path_exists fs (input_source_dir st) \<or> trim (input_dest_dir st) = []")
  case True
  then show ?thesis using assms(1) by (auto simp: action_add_def log_def Let_def split: if_splits)
next
  case False
  show ?thesis
  proof (cases "ensure_dir (input_dest_dir st) fs")
    case (Inl e)
    then show ?thesis using assms(1) False by (auto simp: action_add_def log_def Let_def)
  next
    case (Inr fs1)
    have "lookup fs1 p = Some (File c True)" using ensure_dir_frame [OF Inr assms(4)] assms(2) by simp
    from save_data_file [OF this assms(3)] Inr assms(1) False show ?thesis
      by (auto simp: action_add_def clear_inputs_def Let_def)
  qed
qed

lemma action_edit_job_file:
  assumes "action_edit home (Some p) st fs = Some (st', fs')" and "lookup fs p = Some (File c True)"
    and "p \<noteq> []" and "path_of (input_dest_dir st) \<parallel> p"
  shows "(fs' = fs \<and> schedules st' = schedules st)
         \<or> lookup fs' p = Some (File (save_content (schedules st')) True)"
proof (cases "selected_index st = None \<or> trim (input_source_dir st) = [] \<or> \<not> path_exists fs (input_source_dir st)
    \<or> trim (input_dest_dir st) = []")
  case True
  then show ?thesis using assms(1) by (auto simp: action_edit_def log_def Let_def split: option.splits if_splits)
next
  case False
  show ?thesis
  proof (cases "ensure_dir (input_dest_dir st) fs")
    case (Inl e)
    then show ?thesis using assms(1) False by (auto simp: action_edit_def log_def Let_def split: option.splits)
  next
    case (Inr fs1)
    have "lookup fs1 p = Some (File c True)" using ensure_dir_frame [OF Inr assms(4)] assms(2) by simp
    from save_data_file [OF this assms(3)] Inr assms(1) False show ?thesis
      by (auto simp: action_edit_def clear_inputs_def Let_def split: if_splits option.splits)
  qed
qed

lemma action_delete_job_file:
  "action_delete (Some p) st fs = (st', fs') \<Longrightarrow> lookup fs p = Some (File c True) \<Longrightarrow> p \<noteq> [] \<Longrightarrow>
     (fs' = fs \<and> schedules st' = schedules st)
     \<or> lookup fs' p = Some (File (save_content (schedules st')) True)"
  by (auto simp: action_delete_def log_def Let_def save_data_file split: option.splits if_splits)

lemma action_run_now_fields:
  "map saved_fields (schedules (fst (action_run_now st))) = map saved_fields (schedules st)"
  by (simp add: action_run_now_def log_def split: option.split)

lemma click_row_jobs [simp]: "schedules (click_row i st) = schedules st"
  by (simp add: click_row_def fill_inputs_from_def Let_def)

lemma ui_step_job_file:
  assumes "ui_step home (Some p) now ev st fs = Some (st', fs', ws)" and "lookup fs p = Some (File c True)"
    and "p \<noteq> []" and "ev = AddJob \<or> ev = EditJob \<Longrightarrow> path_of (input_dest_dir st) \<parallel> p"
  shows "(fs' = fs \<and> map saved_fields (schedules st') = map saved_fields (schedules st))
         \<or> lookup fs' p = Some (File (save_content (schedules st')) True)"
proof (cases ev)
  case AddJob
  then have "action_add home (Some p) now st fs = (st', fs')" using assms(1) by (simp split: prod.splits)
  from action_add_job_file [OF this assms(2,3)] assms(4) AddJob show ?thesis by auto
next
  case EditJob
  then have "action_edit home (Some p) st fs = Some (st', fs')" using assms(1) by auto
  from action_edit_job_file [OF this assms(2,3)] assms(4) EditJob show ?thesis by auto
next
  case DeleteJob
  then have "action_delete (Some p) st fs = (st', fs')" using assms(1) by (simp split: prod.splits)
  from action_delete_job_file [OF this assms(2,3)] show ?thesis by auto
next
  case RunNow
  then show ?thesis using assms(1) action_run_now_fields [of st] by (auto split: prod.splits)
qed (use assms(1) in auto)

lemma sys_step_job_file:
  assumes "sys_step home (Some p) e s = Some s'" and "lookup (disk s) p = Some (File c True)"
    and "p \<noteq> []" and "clear_of p e s"
  shows "(lookup (disk s') p = lookup (disk s) p
          \<and> map saved_fields (schedules (ctrl s')) = map saved_fields (schedules (ctrl s)))
         \<or> lookup (disk s') p = Some (File (save_content (schedules (ctrl s'))) True)"
proof (cases e)
  case (UI now ev)
  then obtain st' fs' ws where u: "ui_step home (Some p) now ev (ctrl s) (disk s) = Some (st', fs', ws)"
    and s': "s' = \<lparr>ctrl = st', disk = fs', inflight = inflight s @ ws\<rparr>"
    using assms(1) by (auto split: option.splits)
  have "ev = AddJob \<or> ev = EditJob \<Longrightarrow> path_of (input_dest_dir (ctrl s)) \<parallel> p"
    using assms(4) UI by (auto simp: clear_of_def)
  from ui_step_job_file [OF u assms(2,3) this] s' show ?thesis by auto
next
  case (Frame now inst)
  then show ?thesis using assms(1) tick_fields [of now inst "ctrl s"] by (auto split: prod.splits)
next
  case (Done j k ts zst)
  then obtain ok fs' msgs where j: "j < length (inflight s)"
    and x: "execute_backup k ts zst (w_job (inflight s ! j)) (disk s) = Some (ok, fs', msgs)"
    and s': "disk s' = fs'" "schedules (ctrl s') = schedules (ctrl s)"
    using assms(1) by (auto simp: Let_def split: if_splits option.splits)
  have "lookup fs' p = lookup (disk s) p"
    using execute_backup_frame [OF x] assms(4) Done j by (auto simp: clear_of_def)
  with s' show ?thesis by simp
qed

subsection \<open>The invariant: the job file loads to the jobs\<close>

lemma save_content_fields:
  "saveable st \<Longrightarrow> map saved_fields (load_content (save_content (schedules st)) now) = map saved_fields (schedules st)"
  by (simp add: saveable_def load_content_save_content)

lemma sys_step_synced:
  assumes "sys_step home (Some p) e s = Some s'" and "synced p s" and "clear_of p e s" and "saveable (ctrl s')"
  shows "synced p s'"
proof -
  obtain c where p: "p \<noteq> []" and f: "lookup (disk s) p = Some (File c True)"
    and eq: "map saved_fields (load_content c 0) = map saved_fields (schedules (ctrl s))"
    using assms(2) by (auto simp: synced_def split: option.splits node.splits bool.splits)
  from sys_step_job_file [OF assms(1) f p assms(3)] show ?thesis
    using eq p f save_content_fields [OF assms(4)] by (auto simp: synced_def)
qed

lemma sys_run_synced:
  "sys_run home (Some p) es s = Some s' \<Longrightarrow> synced p s \<Longrightarrow> safe_run home p es s \<Longrightarrow> synced p s'"
proof (induction es arbitrary: s)
  case Nil
  then show ?case by simp
next
  case (Cons e es)
  then obtain s1 where st: "sys_step home (Some p) e s = Some s1" and r: "sys_run home (Some p) es s1 = Some s'"
    by (auto split: option.splits)
  with Cons.prems(3) have "clear_of p e s" "saveable (ctrl s1)" "safe_run home p es s1" by simp_all
  with Cons.IH [OF r] sys_step_synced [OF st Cons.prems(2)] show ?case by blast
qed

lemma synced_restart:
  assumes "ini_path exe = Some p"
  shows "synced p s \<longleftrightarrow> job_file_ok p (disk s)
           \<and> map saved_fields (schedules (ctrl (restart home exe t t0 s))) = map saved_fields (schedules (ctrl s))"
  using restart_jobs [OF assms] load_content_fields [of _ t 0] ini_path_some [OF assms]
  by (auto simp: synced_def job_file_ok_def split: option.splits node.splits bool.splits)

subsection \<open>Every step keeps the last-run times at or after a start-up\<close>

lemma stamped_log [simp]: "stamped_from t (log l st) = stamped_from t st"
  and stamped_clear_inputs [simp]: "stamped_from t (clear_inputs h st) = stamped_from t st"
  by (simp_all add: stamped_from_def)

lemma stamped_receive: "t \<le> now \<Longrightarrow> stamped_from t st \<Longrightarrow> stamped_from t (receive now m st)"
  by (cases m) (auto simp: stamped_from_def intro: list_all_list_update)

lemma stamped_drain: "t \<le> now \<Longrightarrow> stamped_from t st \<Longrightarrow> stamped_from t (drain now st)"
proof -
  assume le: "t \<le> now"
  have "stamped_from t st' \<Longrightarrow> stamped_from t (fold (receive now) ms st')" for ms st'
    by (induction ms arbitrary: st') (simp_all add: stamped_receive [OF le])
  moreover assume "stamped_from t st"
  ultimately show ?thesis by (simp add: drain_def stamped_from_def)
qed

lemma stamped_spawn:
  assumes "stamped_from t st"
  shows "stamped_from t (fst (spawn_backup i st))"
proof (cases "i < length (schedules st)")
  case True
  then have "t \<le> last_time (schedules st ! i)" using assms by (simp add: stamped_from_def list_all_length)
  with assms True show ?thesis by (simp add: spawn_backup_def Let_def stamped_from_def list_all_list_update)
next
  case False
  then show ?thesis using assms by (simp add: spawn_backup_def)
qed

lemma stamped_tick:
  assumes "t \<le> now" and "stamped_from t st"
  shows "stamped_from t (fst (tick now inst st))"
proof (cases "1 \<le> inst - last_tick st")
  case True
  obtain st' where sc: "scan now [0..<length (schedules (drain now st))] (drain now st) = (st', snd (tick now inst st))"
    and r: "fst (tick now inst st) = st'\<lparr>last_tick := inst\<rparr>" using True by (rule tick_scans)
  have "stamped_from t (drain now st)" using stamped_drain [OF assms] .
  then show ?thesis
    by (simp add: r stamped_from_def list_all_length scan_all_length [OF sc] scan_all_nth [OF sc])
next
  case False
  then show ?thesis using assms by (simp add: tick_idle stamped_drain)
qed

lemma stamped_ui:
  assumes "ui_step home ini now ev st fs = Some (st', fs', ws)" and "t \<le> now" and "stamped_from t st"
  shows "stamped_from t st'"
  using assms
proof (cases ev)
  case AddJob
  then show ?thesis using assms
    by (auto simp: action_add_def Let_def stamped_from_def schedule_new_def split: sum.splits if_splits)
next
  case EditJob
  then show ?thesis using assms
    by (auto simp: action_edit_def Let_def stamped_from_def list_all_length edit_fields_def
        nth_list_update split: option.splits sum.splits if_splits)
next
  case DeleteJob
  then show ?thesis using assms
    by (auto simp: action_delete_def Let_def stamped_from_def intro: list_all_remove_nth split: option.splits if_splits)
next
  case RunNow
  then show ?thesis using assms stamped_spawn [of t st]
    by (auto simp: action_run_now_def split: option.splits if_splits prod.splits) (metis fst_conv)
qed (auto simp: stamped_from_def add_skip_file_ext_def add_skip_folder_def pick_source_def pick_dest_def
       click_row_def fill_inputs_from_def Let_def)

lemma stamped_sys_step:
  assumes "sys_step home ini e s = Some s'" and "event_from t e" and "stamped_from t (ctrl s)"
  shows "stamped_from t (ctrl s')"
proof (cases e)
  case (UI n ev)
  then obtain st' fs' ws where u: "ui_step home ini n ev (ctrl s) (disk s) = Some (st', fs', ws)"
    and "ctrl s' = st'" using assms(1) by (auto split: option.splits)
  then show ?thesis using stamped_ui [OF u] assms(2,3) UI by (simp add: event_from_def)
next
  case (Frame n inst)
  then have "ctrl s' = fst (tick n inst (ctrl s))" using assms(1) by (auto split: prod.splits)
  then show ?thesis using stamped_tick [of t n "ctrl s" inst] assms(2,3) Frame by (simp add: event_from_def)
next
  case (Done j k ts zst)
  then have "schedules (ctrl s') = schedules (ctrl s)" using assms(1)
    by (auto simp: Let_def split: if_splits option.splits prod.splits)
  then show ?thesis using assms(3) by (simp add: stamped_from_def)
qed

lemma stamped_sys_run:
  "sys_run home ini es s = Some s' \<Longrightarrow> list_all (event_from t) es \<Longrightarrow> stamped_from t (ctrl s)
     \<Longrightarrow> stamped_from t (ctrl s')"
proof (induction es arbitrary: s)
  case Nil
  then show ?case by simp
next
  case (Cons e es)
  then obtain s1 where "sys_step home ini e s = Some s1" and "sys_run home ini es s1 = Some s'"
    by (auto split: option.splits)
  with Cons show ?case using stamped_sys_step by simp
qed

lemma stamped_restart: "stamped_from t (ctrl (restart home exe t t0 s))"
  using load_data_fresh by (simp add: restart_ctrl stamped_from_def list_all_iff)

section \<open>Properties\<close>

text \<open>C10: The job file keeps the job list. Along any run of user events, ticks and worker
  completions in which every job stays persistable and no created destination or archive
  lands on the job file, a restart of the program gives back exactly the jobs of the list
  it left (their sources, destinations, periods, skip labels and zip flags, in order),
  provided it did so at the start: every handler that changes the list saves it, and
  nothing else changes what is saved.\<close>

theorem job_file_tracks_jobs:
  assumes "ini_path exe = Some p" and "sys_run home (ini_path exe) es s = Some s'"
    and "job_file_ok p (disk s)"
    and "map saved_fields (schedules (ctrl (restart home exe t t0 s))) = map saved_fields (schedules (ctrl s))"
    and "safe_run home p es s"
  shows "job_file_ok p (disk s')
         \<and> map saved_fields (schedules (ctrl (restart home exe t' t0' s'))) = map saved_fields (schedules (ctrl s'))"
proof -
  have "synced p s" using assms(3,4) synced_restart [OF assms(1)] by blast
  with sys_run_synced assms(1,2,5) have "synced p s'" by simp
  then show ?thesis using synced_restart [OF assms(1)] by blast
qed

theorem job_file_tracks_jobs_witness:
  "job_file_ok [''app'', ''AutoBackup.ini''] (disk lifecycle_state)
   \<and> map saved_fields (schedules (ctrl (restart None (Some demo_exe) 7200 0 lifecycle_state)))
       = map saved_fields (schedules (ctrl lifecycle_state))
   \<and> map saved_fields (schedules (ctrl lifecycle_state)) = [(''src'', ''dst'', 24, [], [], False)]"
proof -
  let ?p = "[''app'', ''AutoBackup.ini'']" and ?s0 = "app_start None (Some demo_exe) 0 0 lifecycle_fs"
  have ini: "ini_path (Some demo_exe) = Some ?p" by (simp add: ini_path_def demo_exe_def)
  have run: "sys_run None (ini_path (Some demo_exe)) lifecycle_events ?s0 = Some lifecycle_state"
    unfolding lifecycle_state_def lifecycle_events_def by code_simp
  have ok: "job_file_ok ?p (disk ?s0)" by code_simp
  have eq: "map saved_fields (schedules (ctrl (restart None (Some demo_exe) 0 0 ?s0)))
      = map saved_fields (schedules (ctrl ?s0))" by code_simp
  have safe: "safe_run None ?p lifecycle_events ?s0" unfolding lifecycle_events_def by code_simp
  have f: "map saved_fields (schedules (ctrl lifecycle_state)) = [(''src'', ''dst'', 24, [], [], False)]"
    unfolding lifecycle_state_def lifecycle_events_def by code_simp
  from job_file_tracks_jobs [OF ini run ok eq safe, of 7200 0] f show ?thesis by simp
qed

text \<open>C11: A restart forgets when each job last ran. The job file has no last-run field
  and loading stamps every job with the start-up time \<open>t\<close>; no handler, worker or tick
  moves a last-run time before \<open>t\<close> again. So along any run of user events, ticks and
  worker completions after a restart at \<open>t\<close> (none of them earlier than \<open>t\<close>), no tick at
  time \<open>now\<close> starts a job of period \<open>P \<ge> 1\<close> before \<open>t + P\<close> hours, however long ago the
  job last ran before the restart: a program restarted more often than a job's period
  never runs that job on schedule.\<close>

theorem restart_resets_due_times:
  assumes "sys_run home ini es (restart home exe t t0 s) = Some s'" and "list_all (event_from t) es"
    and "t \<le> now" and "w \<in> set (snd (tick now inst (ctrl s')))" and "1 \<le> period_hours (w_job w)"
  shows "t + 3600 * period_hours (w_job w) \<le> now"
proof -
  let ?d = "drain now (ctrl s')"
  have "stamped_from t (ctrl s')" using stamped_sys_run [OF assms(1,2) stamped_restart] .
  then have sd: "stamped_from t ?d" by (rule stamped_drain [OF assms(3)])
  have "1 \<le> inst - last_tick (ctrl s')"
  proof (rule ccontr)
    assume "\<not> 1 \<le> inst - last_tick (ctrl s')"
    then have "snd (tick now inst (ctrl s')) = []" by (simp add: tick_idle)
    then show False using assms(4) by simp
  qed
  then obtain st'' where sc: "scan now [0..<length (schedules ?d)] ?d = (st'', snd (tick now inst (ctrl s')))"
    by (rule tick_scans)
  obtain i where i: "i < length (schedules ?d)" and du: "due now (schedules ?d ! i)"
    and w: "w_job w = (schedules ?d ! i)\<lparr>is_running := True\<rparr>"
    using assms(4) unfolding scan_all_workers [OF sc] by auto
  have "t \<le> last_time (schedules ?d ! i)" using sd i by (simp add: stamped_from_def list_all_length)
  then show ?thesis using du w assms(5) due_iff_hours [of "schedules ?d ! i" now] by simp
qed

theorem restart_resets_due_times_witness:
  "(\<exists>w. w \<in> set (snd (tick 90000 40 (ctrl (the (sys_run None (ini_path (Some demo_exe)) restart_events
              (restart None (Some demo_exe) 0 0 lifecycle_state))))))
      \<and> 1 \<le> period_hours (w_job w) \<and> 0 + 3600 * period_hours (w_job w) \<le> (90000::int))
   \<and> snd (tick 86404 10 (ctrl lifecycle_state)) \<noteq> []
   \<and> snd (tick 86404 10 (ctrl (restart None (Some demo_exe) 82800 0 lifecycle_state))) = []"
proof -
  let ?r = "restart None (Some demo_exe) 0 0 lifecycle_state"
  obtain s' where r: "sys_run None (ini_path (Some demo_exe)) restart_events ?r = Some s'"
  proof -
    have "sys_run None (ini_path (Some demo_exe)) restart_events ?r \<noteq> None"
      unfolding lifecycle_state_def lifecycle_events_def restart_events_def by code_simp
    then show ?thesis using that by blast
  qed
  have e: "list_all (event_from 0) restart_events" by (simp add: restart_events_def event_from_def)
  have "map (\<lambda>w. period_hours (w_job w)) (snd (tick 90000 40 (ctrl (the (sys_run None (ini_path (Some demo_exe))
           restart_events ?r))))) = [24]"
    unfolding lifecycle_state_def lifecycle_events_def restart_events_def by code_simp
  then obtain w where w: "w \<in> set (snd (tick 90000 40 (ctrl s')))" and p: "period_hours (w_job w) = 24"
    using r by auto
  have a: "0 + 3600 * period_hours (w_job w) \<le> (90000::int)"
    using restart_resets_due_times [OF r e _ w] p by simp
  have b: "snd (tick 86404 10 (ctrl lifecycle_state)) \<noteq> []"
    unfolding lifecycle_state_def lifecycle_events_def by code_simp
  have c: "snd (tick 86404 10 (ctrl (restart None (Some demo_exe) 82800 0 lifecycle_state))) = []"
    unfolding lifecycle_state_def lifecycle_events_def by code_simp
  from r w p a b c show ?thesis by auto
qed

end
