(* ===== verification/View.thy ===== *)
theory View
  imports Coordinator
begin

text \<open>
  The job table of \<open>ui_table\<close> in \<open>main.rs\<close>: what it shows of the controller state. The
  header names the columns; each job of the list, in order, is one row: its source (as a
  selectable label, highlighted when the row is the selection), its destination, and in
  the last column its period with an \<open>h\<close>, the two skip labels, \<open>Zip\<close> or \<open>No zip\<close>, the
  last-run time printed \<open>%Y-%m-%d %H:%M:%S\<close> (\<open>fmt_datetime\<close> of the \<open>Chrono\<close> theory), and
  the status, \<open>Running\<close> in yellow or \<open>Idle\<close> in green. The click on a row is the event
  \<open>ClickRow\<close> of the \<open>Ui\<close> theory; layout, widths and the repaint request are not modelled.
\<close>

datatype color = Yellow | Green

record row_view =
  rv_selected :: bool
  rv_source :: string
  rv_dest :: string
  rv_period :: string
  rv_skip_exts :: string
  rv_skip_folders :: string
  rv_zip :: string
  rv_last :: string
  rv_color :: color
  rv_status :: string

definition table_header :: "string list" where
  "table_header = [''Source'', ''Destination'', ''Period'', ''Skip exts'', ''Skip folders'', ''Zip'',
     ''Last time'', ''Status'']"

definition table_row :: "nat option \<Rightarrow> nat \<Rightarrow> schedule \<Rightarrow> row_view" where
  "table_row sel idx s =
     \<lparr>rv_selected = (sel = Some idx), rv_source = source_dir s, rv_dest = dest_dir s,
      rv_period = int_to_string (period_hours s) @ ''h'', rv_skip_exts = skip_file_exts_label s,
      rv_skip_folders = skip_folders_label s, rv_zip = (if use_zip s then ''Zip'' else ''No zip''),
      rv_last = fmt_datetime (last_time s), rv_color = (if is_running s then Yellow else Green),
      rv_status = (if is_running s then ''Running'' else ''Idle'')\<rparr>"

definition ui_table :: "app_state \<Rightarrow> row_view list" where
  "ui_table st = map (\<lambda>idx. table_row (selected_index st) idx (schedules st ! idx)) [0..<length (schedules st)]"

definition view_example :: app_state where
  "view_example = (app_init None 0)\<lparr>schedules :=
     [schedule_new ''src'' ''dst'' 24 [] [] False 1794182400,
      schedule_new ''src'' ''bk'' 12 [] [] True 1794182400]\<rparr>"

section \<open>Lemmas\<close>

lemma ui_table_length [simp]: "length (ui_table st) = length (schedules st)"
  by (simp add: ui_table_def)

lemma ui_table_nth [simp]:
  "i < length (schedules st) \<Longrightarrow> ui_table st ! i = table_row (selected_index st) i (schedules st ! i)"
  by (simp add: ui_table_def)

section \<open>Properties\<close>

text \<open>C13: The last-run column tells runs apart to the second: for last-run times in the
  years 0 to 9999, two rows show the same last-run text only when their jobs last ran at
  the same second.\<close>

theorem table_last_run_distinct:
  assumes "i < length (schedules st)" and "j < length (schedules st)"
    and "rv_last (ui_table st ! i) = rv_last (ui_table st ! j)"
    and "-62167219200 \<le> last_time (schedules st ! i)" "last_time (schedules st ! i) < 253402300800"
    and "-62167219200 \<le> last_time (schedules st ! j)" "last_time (schedules st ! j) < 253402300800"
  shows "last_time (schedules st ! i) = last_time (schedules st ! j)"
  using assms fmt_datetime_inj [of "last_time (schedules st ! i)" "last_time (schedules st ! j)"]
  by (simp add: table_row_def)

theorem table_last_run_distinct_witness:
  "rv_last (ui_table view_example ! 0) = ''2026-11-09 00:00:00''
   \<and> last_time (schedules view_example ! 0) = last_time (schedules view_example ! 1)"
proof -
  have t: "rv_last (ui_table view_example ! 0) = ''2026-11-09 00:00:00''"
    "rv_last (ui_table view_example ! 1) = ''2026-11-09 00:00:00''"
    unfolding view_example_def by code_simp+
  have h: "0 < length (schedules view_example)" "1 < length (schedules view_example)"
    "-62167219200 \<le> last_time (schedules view_example ! 0)" "last_time (schedules view_example ! 0) < 253402300800"
    "-62167219200 \<le> last_time (schedules view_example ! 1)" "last_time (schedules view_example ! 1) < 253402300800"
    by (simp_all add: view_example_def schedule_new_def)
  from t table_last_run_distinct [OF h(1,2) _ h(3-6)] show ?thesis by simp
qed

end
