(* ===== verification/Spec2Isabelle.thy ===== *)
theory Spec2Isabelle
  imports Lifecycle View
begin

text \<open>
  \<^bold>\<open>A verification model of AutoBackup (src/src/main.rs).\<close>

  The program is one Rust file. A controller (\<open>AppState\<close>, driven by egui's \<open>update\<close>)
  owns a list of backup jobs (\<open>Schedule\<close>), lets the user add, edit, delete and run them,
  and once a second scans the list (\<open>tick\<close>) for jobs whose period has elapsed. A due or
  requested job is cloned into a worker thread (\<open>spawn_backup\<close>) that runs
  \<open>execute_backup\<close>: it checks the source, creates the destination, copies the tree with
  \<open>copy_recursive\<close> (skipping configured extensions and folder names), optionally zips
  the destination with 7z, and reports over an mpsc channel (\<open>AppMsg::Log\<close>, then one
  \<open>AppMsg::BackupFinished(idx, ok)\<close>). The controller drains the channel on each tick,
  clears the job's running flag and resets its last-run time. Jobs persist in a flat
  comma-separated file (\<open>save_data\<close>, \<open>load_data\<close>).

  \<^bold>\<open>Theories.\<close>
  \<^item> \<open>Prelude\<close>: type names (timestamps as seconds, paths as component lists), the
    lemma collections \<open>rust_simps\<close> and \<open>inv_simps\<close>, and shared lemmas on lists and on
    Rust's truncating division (\<open>sdiv\<close>).
  \<^item> \<open>RustStr\<close>: the Rust standard-library string operations the program calls
    (\<open>trim\<close>, \<open>split_whitespace\<close>, \<open>split\<close>, \<open>to_ascii_lowercase\<close>,
    \<open>eq_ignore_ascii_case\<close>, \<open>trim_start_matches\<close>, \<open>Path::extension\<close>, parsing and
    printing of \<open>i32\<close>, \<open>usize\<close>, \<open>bool\<close>), over ASCII strings, with the round trip of
    \<open>i32\<close> printing and parsing.
  \<^item> \<open>Fs\<close>: the filesystem as a tree with ordered directory listings and fault flags
    (unreadable files, unlistable directories, entries that are neither), and the
    \<open>std::fs\<close> calls used: \<open>read_dir\<close>, \<open>create_dir_all\<close>, \<open>copy\<close>, \<open>remove_file\<close>,
    \<open>Path::exists\<close>. The type invariant \<open>fs_wf\<close> (the root is a directory and no
    directory holds two entries of one name) is kept by every one of them; frame lemmas
    show that a write at a path leaves every parallel path alone.
  \<^item> \<open>Job\<close>: \<open>Schedule\<close> as the record \<open>schedule\<close>, \<open>AppMsg\<close> as \<open>app_msg\<close>, the
    log messages as \<open>log_line\<close>, \<open>AppState\<close> as \<open>app_state\<close> (the channel is its queue
    \<open>rx\<close>), and \<open>Schedule::new\<close>, \<open>log\<close>, \<open>clear_inputs\<close>, \<open>fill_inputs_from\<close>,
    \<open>default_backup_root\<close>.
  \<^item> \<open>SkipList\<close>: \<open>add_skip_file_ext\<close>, \<open>add_skip_folder\<close>, \<open>parse_skip_tokens\<close>, the
    folder-token list of \<open>execute_backup\<close>, and the two skip tests of \<open>copy_recursive\<close>.
    Lemmas: adding a present word only warns; labels keep distinct words when the input
    has no inner whitespace, while an input with an inner space whose last word is in the
    label passes the duplicate check and leaves that word twice; an extension token
    matches whole extensions case-insensitively.
  \<^item> \<open>Copy\<close>: \<open>copy_recursive\<close> as written (reading the live tree, fuel-bounded), the
    snapshot copy \<open>copy_tree\<close>, and the abstract result \<open>mirror_tree\<close> with its
    warnings. Lemmas: the copy writes below the destination only; an unlistable
    directory or an uncreatable destination aborts it; for parallel source and
    destination the copy as written equals the snapshot copy, which into a fresh directory
    is the filtered mirror (the refinement chain \<open>copy_recursive\<close> = \<open>copy_tree\<close> =
    \<open>mirror_tree\<close>); enough fuel always gives a result; a destination named inside an
    empty source directory makes it run out of every fuel (induction on the fuel: each
    level creates the next one and descends into it). \<open>copy_recursive_preserves\<close> transfers
    any property kept by \<open>create_dir_all\<close> and \<open>fs::copy\<close> below the destination to the
    whole copy; well-formedness and the frame (nothing parallel to the destination
    changes) are its instances.
  \<^item> \<open>Chrono\<close>: the two \<open>chrono\<close> format calls of the program over the proleptic
    Gregorian calendar: \<open>civil_of_days\<close> walks the years from 1970 (backwards for earlier
    days), then the months; \<open>fmt_datetime\<close> prints \<open>%Y-%m-%d %H:%M:%S\<close>, \<open>fmt_ymdh\<close>
    prints \<open>%y%m%d%H\<close>. Lemmas: the closed form \<open>days_from_civil\<close> (leap years counted by
    floor division) inverts the walk and every date is valid; \<open>%y%m%d%H\<close> names the hour
    within 2000..2099; \<open>%Y-%m-%d %H:%M:%S\<close> tells every two seconds apart within the years
    0..9999.
  \<^item> \<open>Backup\<close>: \<open>execute_backup\<close> with \<open>ensure_dir\<close> (create the destination if
    missing) and the archiver step \<open>zip_step\<close>, which names the archive
    \<open><dest>_<%y%m%d%H>.zip\<close> from the local time at which the worker zips. The 7z
    process is an input (\<open>zip_status\<close>, what \<open>Command::status\<close> returned) and so is
    the \<open>%y%m%d%H\<close> timestamp. Lemmas: the success flag never depends on the archiver;
    a run on a listable source and a fresh destination leaves the filtered mirror there;
    a run keeps the filesystem well formed and changes nothing parallel to its destination
    and its archive; two runs name their archive alike exactly when they zip within the
    same clock hour.
  \<^item> \<open>Persist\<close>: \<open>save_data\<close> and \<open>load_data\<close> over a file of the filesystem model,
    with \<open>BufRead::read_line\<close>. Lemmas: the round trip for jobs whose fields hold no comma
    or line break; a comma in a source path shifts every later field of the job loaded
    back; any stored \<open>i32\<close> period, 0 or negative included, is loaded as it is; saving
    over an existing job file leaves exactly the saved content there.
  \<^item> \<open>Controller\<close>: the button handlers (\<open>action_add\<close>, \<open>action_edit\<close>,
    \<open>action_delete\<close>, \<open>action_run_now\<close>, the row click) and \<open>tick\<close> with
    \<open>receive\<close>, \<open>drain\<close>, \<open>due\<close>, \<open>scan\<close> and \<open>spawn_backup\<close>. A handler maps the
    controller state and the filesystem to new ones; \<open>spawn_backup\<close> and \<open>tick\<close> also
    return the workers started (index and job clone). Lemmas: the effect of one scan, the
    whole-hour due test (\<open>sdiv\<close> truncates toward zero, so a job is never started early),
    no double start within a tick, the scan loop (which re-reads the list after each
    spawn) equal to the batch operation \<open>scan_spec\<close>, periods kept in 1..i32::MAX, the
    selection invariant (so \<open>action_edit\<close> never
    panics), what each handler does to the job list, and the validation paths: errors only
    log, while source = destination and an invalid period are accepted.
  \<^item> \<open>Ui\<close>: the state changes of \<open>ui_top\<close> and of the row click as events
    (\<open>ui_event\<close>, \<open>ui_step\<close>): typing in a field, a folder picked, a button pressed.
    Every event keeps the filesystem well formed.
  \<^item> \<open>Coordinator\<close>: the whole program as a system \<open>sys\<close> of the controller, the
    filesystem and the worker threads in flight. A step (\<open>sys_step\<close>) is a UI event, a
    frame's \<open>tick\<close>, or the end of one worker's run (its \<open>execute_backup\<close> on the job
    clone, then its messages and \<open>BackupFinished\<close> queued), in any interleaving;
    \<open>reach\<close> is the set of states reachable from start-up when a job is deleted only
    while no job is busy. The invariant \<open>coord_inv\<close> (the running flags tell exactly the
    busy jobs, no job busy twice, the selection valid) is kept by every step, one lemma per
    list operation (\<open>flags_match_*\<close>). Lemmas: at most one run per job and exact running
    flags in every reachable state; a worker whose copy has enough fuel finishes and its
    job becomes idle at the next drain; every step keeps the filesystem well formed
    (\<open>sys_step_wf\<close>); and, without the discipline, a delete of job \<open>j\<close> while job
    \<open>i > j\<close> runs shifts the list under the worker's index, so its \<open>BackupFinished(i)\<close>
    clears the flag of the next job (which may still be copying) or, for the last job,
    falls off the list and leaves the job flagged running with no worker.

  \<^item> \<open>Lifecycle\<close>: \<open>main\<close> and \<open>ini_path\<close> (\<open>app_start\<close>: the job file is
    \<open>AutoBackup.ini\<close> beside the executable) and a restart, which keeps only the
    filesystem (\<open>restart\<close>). \<open>saved_fields\<close> are the six fields the job file holds.
    Lemmas: each handler that changes the job list saves it, and ticks, other events and
    worker runs leave the saved fields and the job file alone, so along a run that keeps
    clear of the job file (\<open>safe_run\<close>) the file always loads back to the job list
    (\<open>synced\<close>); and since the file has no last-run field, every job's last-run time
    stays at or after the restart along any later run (\<open>stamped_from\<close>, for events
    stamped \<open>event_from\<close> the restart), so no tick starts a job before a full period has
    passed from the restart.

  \<^item> \<open>View\<close>: the job table of \<open>ui_table\<close>, one \<open>row_view\<close> per job with the cells the
    code draws (selection highlight, source, destination, period, skip labels, zip flag,
    last-run time, status text and colour). Lemma: the last-run column tells two jobs'
    last runs apart to the second.

  \<^bold>\<open>Fuel.\<close> \<open>copy_recursive\<close> takes fuel because it reads the live tree, which the
  copy itself changes: when the destination lies inside the source the Rust recursion
  never ends (it stops only at the OS path-length limit). For parallel source and
  destination, fuel one above the height of the source tree suffices, and the result is
  then independent of the fuel. A worker whose copy runs out of fuel never finishes in the
  coordinator (\<open>sys_step\<close> gives \<open>None\<close>), as the thread never would.

  \<^bold>\<open>Not modelled.\<close> \<open>ui_logs\<close> and the text of log lines: a log line is a value of
  \<open>log_line\<close> (which message, with its arguments), without its rendered text or the
  \<open>[%Y-%m-%d %H:%M:%S]\<close> wall-clock prefix \<open>log\<close> adds, since the model's \<open>log\<close> takes no
  clock. Also not modelled: layout and widget geometry, eframe's event loop (\<open>update\<close> is the
  interleaving of UI events and frames in \<open>sys_step\<close>; \<open>main\<close> only starts it), the native
  folder dialog itself (its answer is an event), time zones and daylight-saving changes
  (time stamps are seconds of local time), non-ASCII text, \<open>to_string_lossy\<close>, and an error
  while iterating a directory listing after it was opened (a listing either fails as a
  whole or succeeds). A restart loses the worker threads in flight; a copy interrupted
  midway is not modelled.
  A worker's run is one step of the coordinator: its copy does not interleave with other
  workers' copies or with controller steps, so claims about two jobs writing the same tree
  at once are out of reach; the at-most-one property concerns the flags and the queue,
  which only the controller touches.
\<close>

end
